theory Spec2Isabelle
  imports Main
begin

section \<open>ginprov: the improvisational web server\<close>

text \<open>
  A shallow embedding of the parts of ginprov that its specification makes claims about:
  \<^verbatim>\<open>sanitizeURL\<close>, the HTML sanitizer of package sanitize, and, of package server, the
  atomic writer, the Prompter and the Site. Definitions come first, in the order of the
  code; the properties follow, each claim of the specification under its number.

  Go strings are byte sequences; \<^typ>\<open>string\<close> is a list of 8-bit characters, so the two
  agree byte for byte. What the code calls outside the repository (the standard library
  beyond the small functions modelled here, the CSS lexer, the model client, the file
  system) is a parameter of the function that calls it.
\<close>

subsection \<open>Bytes and runes\<close>

definition byte :: "char \<Rightarrow> nat" where
  "byte c = of_char c"

text \<open>The character class \<^verbatim>\<open>[a-z0-9]\<close> of \<^verbatim>\<open>sanitizeRe\<close>.\<close>

definition lower_alnum :: "char \<Rightarrow> bool" where
  "lower_alnum c = ((97 \<le> byte c \<and> byte c \<le> 122) \<or> (48 \<le> byte c \<and> byte c \<le> 57))"

text \<open>
  \<^verbatim>\<open>utf8.DecodeRuneInString\<close>, the width only: the number of bytes of the first rune of a
  non-empty string. An ill-formed or truncated sequence is the rune U+FFFD of width 1.
  The regexp engine steps through its input with this function.
\<close>

definition cont_byte :: "char \<Rightarrow> bool" where
  "cont_byte c = (128 \<le> byte c \<and> byte c \<le> 191)"

fun rune_width :: "string \<Rightarrow> nat" where
  "rune_width [] = 0"
| "rune_width (c # cs) =
     (let b = byte c in
      if b < 128 then 1
      else if b < 194 then 1
      else if b \<le> 223 then
        (case cs of c1 # _ \<Rightarrow> if cont_byte c1 then 2 else 1 | _ \<Rightarrow> 1)
      else if b \<le> 239 then
        (case cs of c1 # c2 # _ \<Rightarrow>
           (let lo = (if b = 224 then 160 else 128); hi = (if b = 237 then 159 else 191) in
            if byte c1 < lo \<or> hi < byte c1 then 1
            else if cont_byte c2 then 3 else 1)
         | _ \<Rightarrow> 1)
      else if b \<le> 244 then
        (case cs of c1 # c2 # c3 # _ \<Rightarrow>
           (let lo = (if b = 240 then 144 else 128); hi = (if b = 244 then 143 else 191) in
            if byte c1 < lo \<or> hi < byte c1 then 1
            else if \<not> cont_byte c2 then 1
            else if cont_byte c3 then 4 else 1)
         | _ \<Rightarrow> 1)
      else 1)"

subsection \<open>The standard-library functions sanitizeURL calls\<close>

text \<open>
  \<^verbatim>\<open>url.Parse\<close> is Go's standard library, not code of this repository: it is a parameter
  of the model. Of the parsed URL, \<^verbatim>\<open>sanitizeURL\<close> reads the fields \<^verbatim>\<open>Path\<close> and
  \<^verbatim>\<open>RawQuery\<close>; \<open>None\<close> is a parse error. The Unicode tables that
  \<^verbatim>\<open>strings.ToLower\<close>, \<^verbatim>\<open>strings.TrimSpace\<close> and \<^verbatim>\<open>strings.Fields\<close> consult for a
  string that is not pure ASCII are parameters too; on ASCII strings the three functions
  are modelled in full.
\<close>

record url =
  Path :: string
  RawQuery :: string

record stdlib =
  url_Parse :: "string \<Rightarrow> url option"
  unicode_ToLower :: "string \<Rightarrow> string"
  unicode_TrimSpace :: "string \<Rightarrow> string"
  unicode_Fields :: "string \<Rightarrow> string list"

definition ascii_lower :: "char \<Rightarrow> char" where
  "ascii_lower c = (if 65 \<le> byte c \<and> byte c \<le> 90 then char_of (byte c + 32) else c)"

text \<open>
  \<^verbatim>\<open>strings.ToLower\<close>: a string of ASCII bytes only has its letters A-Z lowered byte by
  byte; any other string is mapped rune by rune through the Unicode tables.
\<close>

definition strings_ToLower :: "stdlib \<Rightarrow> string \<Rightarrow> string" where
  "strings_ToLower L s =
     (if list_all (\<lambda>c. byte c < 128) s then map ascii_lower s else unicode_ToLower L s)"

text \<open>\<^verbatim>\<open>strings.LastIndexByte\<close>; \<open>None\<close> is Go's -1.\<close>

fun LastIndexByte :: "string \<Rightarrow> char \<Rightarrow> nat option" where
  "LastIndexByte [] b = None"
| "LastIndexByte (c # cs) b =
     (case LastIndexByte cs b of
        Some i \<Rightarrow> Some (Suc i)
      | None \<Rightarrow> if c = b then Some 0 else None)"

text \<open>\<^verbatim>\<open>strings.Trim(s, "-")\<close>: leading and trailing hyphens removed.\<close>

definition Trim_hyphen :: "string \<Rightarrow> string" where
  "Trim_hyphen s =
     rev (dropWhile (\<lambda>c. c = CHR ''-'') (rev (dropWhile (\<lambda>c. c = CHR ''-'') s)))"

text \<open>
  \<^verbatim>\<open>sanitizeRe.ReplaceAllString(s, "-")\<close> for \<^verbatim>\<open>sanitizeRe = [^a-z0-9]\<close>: the pattern
  matches one rune at a time, and each match is replaced by one hyphen.
\<close>

fun sanitizeRe_ReplaceAllString :: "string \<Rightarrow> string" where
  "sanitizeRe_ReplaceAllString [] = []"
| "sanitizeRe_ReplaceAllString (c # cs) =
     (if lower_alnum c then c # sanitizeRe_ReplaceAllString cs
      else CHR ''-'' # sanitizeRe_ReplaceAllString (drop (rune_width (c # cs) - 1) cs))"

subsection \<open>sanitizeURL\<close>

definition ExtensionHTML :: string where
  "ExtensionHTML = ''.html''"

definition ExtensionJPG :: string where
  "ExtensionJPG = ''.jpg''"

definition sanitizeURL :: "stdlib \<Rightarrow> string \<Rightarrow> string" where
  "sanitizeURL L v =
     (case url_Parse L v of
        None \<Rightarrow> ''data:''
      | Some u \<Rightarrow>
          if Path u = [] then ''index.html''
          else
            let path0 = strings_ToLower L (Path u);
                (ext, path1) = (case LastIndexByte path0 (CHR ''.'') of
                                  Some idx \<Rightarrow> (drop idx path0, take idx path0)
                                | None \<Rightarrow> ([], path0));
                path2 = (if RawQuery u \<noteq> []
                         then path1 @ ''?'' @ strings_ToLower L (RawQuery u) else path1);
                safe = Trim_hyphen (sanitizeRe_ReplaceAllString path2)
            in if length safe = 0 then ''index.html''
               else if ext \<in> {''.jpg'', ''.jpeg'', ''.png'', ''.gif'', ''.webp'', ''.svg''}
                 then safe @ ExtensionJPG
               else if ext \<in> {'''', ''.html'', ''.htm''}
                 then safe @ ExtensionHTML
               else ''data:'')"

text \<open>
  What \<^verbatim>\<open>url.Parse\<close> returns for a string with no scheme, authority, query, fragment,
  percent escape or control character: the whole string as \<^verbatim>\<open>Path\<close>. The concrete
  evaluations below use it on such strings only, and on ASCII strings only, where the
  Unicode parameters are never consulted.
\<close>

definition path_only :: stdlib where
  "path_only = \<lparr> url_Parse = (\<lambda>v. Some \<lparr> Path = v, RawQuery = [] \<rparr>),
                 unicode_ToLower = (\<lambda>s. s),
                 unicode_TrimSpace = (\<lambda>s. s),
                 unicode_Fields = (\<lambda>s. [s]) \<rparr>"

text \<open>
  The pieces \<^verbatim>\<open>sanitizeURL\<close> computes from a parsed URL, named for the statements below:
  the extension (from the last dot of the lower-cased path, empty without a dot), the
  stem after replacement and trimming, and the stem before them (lower-cased, with the
  lower-cased query appended).
\<close>

definition extension_of :: "stdlib \<Rightarrow> url \<Rightarrow> string" where
  "extension_of L u =
     (case LastIndexByte (strings_ToLower L (Path u)) (CHR ''.'') of
        Some idx \<Rightarrow> drop idx (strings_ToLower L (Path u))
      | None \<Rightarrow> [])"

definition safe_stem_of :: "stdlib \<Rightarrow> url \<Rightarrow> string" where
  "safe_stem_of L u =
     (let path0 = strings_ToLower L (Path u);
          path1 = (case LastIndexByte path0 (CHR ''.'') of
                     Some idx \<Rightarrow> take idx path0
                   | None \<Rightarrow> path0);
          path2 = (if RawQuery u \<noteq> []
                   then path1 @ ''?'' @ strings_ToLower L (RawQuery u) else path1)
      in Trim_hyphen (sanitizeRe_ReplaceAllString path2))"


definition image_extensions :: "string set" where
  "image_extensions = {''.jpg'', ''.jpeg'', ''.png'', ''.gif'', ''.webp'', ''.svg''}"

definition html_extensions :: "string set" where
  "html_extensions = {[], ''.html'', ''.htm''}"

subsection \<open>Slugs\<close>

text \<open>
  A well-formed slug: a non-empty stem over \<^verbatim>\<open>[a-z0-9-]\<close> that neither starts nor ends
  with a hyphen, followed by \<^verbatim>\<open>.html\<close> or \<^verbatim>\<open>.jpg\<close>.
\<close>

definition slug_char :: "char \<Rightarrow> bool" where
  "slug_char c = (lower_alnum c \<or> c = CHR ''-'')"

definition slug_stem :: "string \<Rightarrow> bool" where
  "slug_stem t = (t \<noteq> [] \<and> list_all slug_char t \<and> hd t \<noteq> CHR ''-'' \<and> last t \<noteq> CHR ''-'')"

definition well_formed_slug :: "string \<Rightarrow> bool" where
  "well_formed_slug s =
     ((drop (length s - 5) s = ''.html'' \<and> slug_stem (take (length s - 5) s)) \<or>
      (drop (length s - 4) s = ''.jpg'' \<and> slug_stem (take (length s - 4) s)))"


section \<open>The HTML sanitizer (package sanitize)\<close>

subsection \<open>Errors\<close>

text \<open>
  A Go error is modelled by the sentinel that \<^verbatim>\<open>errors.Is\<close> finds in its chain; the
  message text that \<^verbatim>\<open>fmt.Errorf\<close> wraps around it is dropped. \<open>ErrOther\<close> stands for
  every error that wraps none of these sentinels (I/O, the model client, the CSS lexer,
  ...), tagged with the place that produced it; \<open>ErrNotExist\<close> is an error of which
  \<^verbatim>\<open>os.IsNotExist\<close> holds.
\<close>

datatype error =
    ErrMaxDepthExceeded
  | ErrUnsafe
  | ErrNotFound
  | ErrUnexpectedSize
  | ErrInvalidSlug
  | ErrNotExist
  | ErrWorkerPoolOverCapacity
  | ErrGeneratePanic
  | ErrOther string

subsection \<open>The document tree\<close>

text \<open>
  \<^verbatim>\<open>html.Node\<close> of golang.org/x/net/html: the sanitizer reads and writes \<^verbatim>\<open>Type\<close>,
  \<^verbatim>\<open>Data\<close>, \<^verbatim>\<open>Attr\<close> and the list of children (\<^verbatim>\<open>FirstChild\<close> / \<^verbatim>\<open>NextSibling\<close>).
  The Go code mutates the tree in place; the model returns the new tree.
\<close>

datatype NodeType =
  ErrorNode | TextNode | DocumentNode | ElementNode | CommentNode | DoctypeNode | RawNode

record Attribute =
  Namespace :: string
  Key :: string
  Val :: string

datatype Node = Node (Type: NodeType) (Data: string) (Attr: "Attribute list") (Children: "Node list")

definition maxDepth :: nat where
  "maxDepth = 100"

subsection \<open>More of package strings\<close>

definition ascii_space :: "char \<Rightarrow> bool" where
  "ascii_space c = (byte c \<in> {9, 10, 11, 12, 13, 32})"

definition all_ascii :: "string \<Rightarrow> bool" where
  "all_ascii s = list_all (\<lambda>c. byte c < 128) s"

definition strings_TrimSpace :: "stdlib \<Rightarrow> string \<Rightarrow> string" where
  "strings_TrimSpace L s =
     (if all_ascii s then rev (dropWhile ascii_space (rev (dropWhile ascii_space s)))
      else unicode_TrimSpace L s)"

fun fields_go :: "string \<Rightarrow> string \<Rightarrow> string list" where
  "fields_go cur [] = (if cur = [] then [] else [rev cur])"
| "fields_go cur (c # cs) =
     (if ascii_space c then (if cur = [] then fields_go [] cs else rev cur # fields_go [] cs)
      else fields_go (c # cur) cs)"

definition strings_Fields :: "stdlib \<Rightarrow> string \<Rightarrow> string list" where
  "strings_Fields L s = (if all_ascii s then fields_go [] s else unicode_Fields L s)"

text \<open>\<^verbatim>\<open>strings.Split(s, sep)\<close> for a one-byte separator: always at least one piece.\<close>

fun split_go :: "char \<Rightarrow> string \<Rightarrow> string \<Rightarrow> string list" where
  "split_go sep cur [] = [rev cur]"
| "split_go sep cur (c # cs) =
     (if c = sep then rev cur # split_go sep [] cs else split_go sep (c # cur) cs)"

definition strings_Split :: "string \<Rightarrow> char \<Rightarrow> string list" where
  "strings_Split s sep = split_go sep [] s"

fun strings_Join :: "string list \<Rightarrow> string \<Rightarrow> string" where
  "strings_Join [] sep = []"
| "strings_Join [x] sep = x"
| "strings_Join (x # y # zs) sep = x @ sep @ strings_Join (y # zs) sep"

subsection \<open>The CSS sanitizer\<close>

text \<open>
  \<^verbatim>\<open>CSSSanitizeAndExtractUrls(raw, urls, sanitizeURL)\<close> drives the CSS lexer of
  github.com/tdewolff/parse, which is not part of the repository; no statement below is
  about CSS, so its token loop is a parameter. Given the URL sanitizer and the raw text,
  the loop ends with the lexer's error, or with the rewritten text together with the
  sanitized URLs it has inserted into \<^verbatim>\<open>urls\<close> (its only effect on the map is
  \<^verbatim>\<open>urls[sanitized] = struct{}{}\<close>). The function wraps a lexer error as
  \<^verbatim>\<open>lexing css failed: ...\<close>, which is none of the repository's sentinels.
\<close>

type_synonym css_sanitizer = "(string \<Rightarrow> string) \<Rightarrow> string \<Rightarrow> string + (string \<times> string list)"

definition CSSSanitizeAndExtractUrls :: "css_sanitizer \<Rightarrow> (string \<Rightarrow> string) \<Rightarrow> string \<Rightarrow>
    error + (string \<times> string list)" where
  "CSSSanitizeAndExtractUrls css f raw =
     (case css f raw of Inl lexerr \<Rightarrow> Inl (ErrOther lexerr) | Inr r \<Rightarrow> Inr r)"

text \<open>What the token loop does on a text with no \<^verbatim>\<open>url(...)\<close> token: nothing.\<close>

definition css_no_urls :: css_sanitizer where
  "css_no_urls f raw = Inr (raw, [])"

subsection \<open>sanitizeSrcset\<close>

fun srcset_parts :: "stdlib \<Rightarrow> (string \<Rightarrow> string) \<Rightarrow> string list \<Rightarrow> string set \<Rightarrow>
    string list \<times> string set" where
  "srcset_parts L f [] urls = ([], urls)"
| "srcset_parts L f (part0 # parts) urls =
     (let part = strings_TrimSpace L part0 in
      if part = [] then srcset_parts L f parts urls
      else case strings_Fields L part of
             [] \<Rightarrow> srcset_parts L f parts urls
           | u # rest \<Rightarrow>
               let desc = (if rest \<noteq> [] then '' '' @ strings_Join rest '' '' else []);
                   vv = f u;
                   (out, urls') = srcset_parts L f parts (insert vv urls)
               in ((vv @ desc) # out, urls'))"

definition sanitizeSrcset :: "stdlib \<Rightarrow> string \<Rightarrow> string set \<Rightarrow> (string \<Rightarrow> string) \<Rightarrow>
    string \<times> string set" where
  "sanitizeSrcset L v urls f =
     (let (out, urls') = srcset_parts L f (strings_Split v (CHR '','')) urls
      in (strings_Join out '', '', urls'))"

subsection \<open>sanitizeStyleNode\<close>

text \<open>
  The children of a \<^verbatim>\<open>style\<close> element: the text of all text children is concatenated and
  sanitized as CSS. If the first text child is the last child and no child is of another
  type, its \<^verbatim>\<open>Data\<close> is replaced in place; otherwise all children are removed and one
  new text node is appended. An element with no text is left alone.
\<close>

definition set_Data :: "Node \<Rightarrow> string \<Rightarrow> Node" where
  "set_Data n v = Node (Type n) v (Attr n) (Children n)"

definition sanitizeStyleNode :: "css_sanitizer \<Rightarrow> (string \<Rightarrow> string) \<Rightarrow> Node list \<Rightarrow>
    string set \<Rightarrow> error + (Node list \<times> string set)" where
  "sanitizeStyleNode css f cs urls =
     (let buf = concat (map Data (filter (\<lambda>c. Type c = TextNode) cs));
          otherNodesExist = (\<not> list_all (\<lambda>c. Type c = TextNode) cs);
          first = length (takeWhile (\<lambda>c. Type c \<noteq> TextNode) cs)
      in if length buf = 0 then Inr (cs, urls)
         else case CSSSanitizeAndExtractUrls css f buf of
                Inl e \<Rightarrow> Inl e
              | Inr (v, added) \<Rightarrow>
                  if first < length cs \<and> Suc first = length cs \<and> \<not> otherNodesExist
                  then Inr (cs[first := set_Data (cs ! first) v], urls \<union> set added)
                  else Inr ([Node TextNode v [] []], urls \<union> set added))"

subsection \<open>HTMLSanitizeAndExtractUrls\<close>

definition url_attrs :: "string list" where
  "url_attrs = [''src'', ''href'', ''action'', ''data'', ''poster'', ''formaction'', ''cite'',
     ''background'', ''ping'', ''longdesc'', ''icon'', ''srcdoc'', ''xlink:href'', ''codebase'',
     ''classid'', ''archive'', ''usemap'', ''profile'', ''manifest'']"

definition sanitize_attr :: "stdlib \<Rightarrow> css_sanitizer \<Rightarrow> (string \<Rightarrow> string) \<Rightarrow> Attribute \<Rightarrow>
    string set \<Rightarrow> error + (Attribute \<times> string set)" where
  "sanitize_attr L css f a urls =
     (let k = strings_ToLower L (Key a) in
      if k = ''style'' then
        (case CSSSanitizeAndExtractUrls css f (Val a) of
           Inl e \<Rightarrow> Inl e
         | Inr (v, added) \<Rightarrow> Inr (a\<lparr>Val := v\<rparr>, urls \<union> set added))
      else if k \<in> set url_attrs then
        (let v = f (Val a) in Inr (a\<lparr>Val := v\<rparr>, insert v urls))
      else if k = ''srcset'' \<or> k = ''imagesrcset'' then
        (let (v, urls') = sanitizeSrcset L (Val a) urls f in Inr (a\<lparr>Val := v\<rparr>, urls'))
      else Inr (a, urls))"

text \<open>The loop \<^verbatim>\<open>for i := range n.Attr\<close>; an error leaves the loop and the walk.\<close>

fun sanitize_attrs :: "stdlib \<Rightarrow> css_sanitizer \<Rightarrow> (string \<Rightarrow> string) \<Rightarrow> Attribute list \<Rightarrow>
    string set \<Rightarrow> error + (Attribute list \<times> string set)" where
  "sanitize_attrs L css f [] urls = Inr ([], urls)"
| "sanitize_attrs L css f (a # as) urls =
     (case sanitize_attr L css f a urls of
        Inl e \<Rightarrow> Inl e
      | Inr (a', urls1) \<Rightarrow>
          (case sanitize_attrs L css f as urls1 of
             Inl e \<Rightarrow> Inl e
           | Inr (as', urls2) \<Rightarrow> Inr (a' # as', urls2)))"

text \<open>What \<^verbatim>\<open>walk\<close> does to an element node before it descends.\<close>

definition element_step :: "stdlib \<Rightarrow> css_sanitizer \<Rightarrow> (string \<Rightarrow> string) \<Rightarrow> Node \<Rightarrow>
    string set \<Rightarrow> error + (Node \<times> string set)" where
  "element_step L css f n urls =
     (case sanitize_attrs L css f (Attr n) urls of
        Inl e \<Rightarrow> Inl e
      | Inr (as, urls1) \<Rightarrow>
          if Data n = ''style'' then
            (case sanitizeStyleNode css f (Children n) urls1 of
               Inl e \<Rightarrow> Inl e
             | Inr (cs, urls2) \<Rightarrow> Inr (Node (Type n) (Data n) as cs, urls2))
          else Inr (Node (Type n) (Data n) as (Children n), urls1))"

function walk :: "stdlib \<Rightarrow> css_sanitizer \<Rightarrow> (string \<Rightarrow> string) \<Rightarrow> Node \<Rightarrow> nat \<Rightarrow>
    string set \<Rightarrow> error + (Node \<times> string set)"
  and walk_children :: "stdlib \<Rightarrow> css_sanitizer \<Rightarrow> (string \<Rightarrow> string) \<Rightarrow> Node list \<Rightarrow> nat \<Rightarrow>
    string set \<Rightarrow> error + (Node list \<times> string set)" where
  "walk L css f n depth urls =
     (if depth > maxDepth then Inl ErrMaxDepthExceeded
      else case (if Type n = ElementNode then element_step L css f n urls else Inr (n, urls)) of
             Inl e \<Rightarrow> Inl e
           | Inr (n1, urls1) \<Rightarrow>
               (case walk_children L css f (Children n1) (depth + 1) urls1 of
                  Inl e \<Rightarrow> Inl e
                | Inr (cs, urls2) \<Rightarrow> Inr (Node (Type n1) (Data n1) (Attr n1) cs, urls2)))"
| "walk_children L css f [] depth urls = Inr ([], urls)"
| "walk_children L css f (c # cs) depth urls =
     (case walk L css f c depth urls of
        Inl e \<Rightarrow> Inl e
      | Inr (c', urls1) \<Rightarrow>
          (case walk_children L css f cs depth urls1 of
             Inl e \<Rightarrow> Inl e
           | Inr (cs', urls2) \<Rightarrow> Inr (c' # cs', urls2)))"
  by pat_completeness auto
termination
  by (relation "inv_image (less_than <*lex*> less_than)
        (\<lambda>x. case x of
           Inl (L, css, f, n, depth, urls) \<Rightarrow> (2 * (maxDepth + 2 - depth), 0)
         | Inr (L, css, f, cs, depth, urls) \<Rightarrow> (2 * (maxDepth + 2 - depth) + 1, length cs))")
     (auto simp: maxDepth_def)

declare walk.simps [simp del]

definition HTMLSanitizeAndExtractUrls :: "stdlib \<Rightarrow> css_sanitizer \<Rightarrow> Node \<Rightarrow> string set \<Rightarrow>
    (string \<Rightarrow> string) \<Rightarrow> error + (Node \<times> string set)" where
  "HTMLSanitizeAndExtractUrls L css doc urls f = walk L css f doc 0 urls"

subsection \<open>Positions and depth in a tree\<close>


text \<open>The depth of the deepest node below \<open>n\<close>, with \<open>n\<close> itself at depth 0.\<close>

fun height :: "Node \<Rightarrow> nat" where
  "height (Node t d as cs) = fold max (map (\<lambda>c. Suc (height c)) cs) 0"

text \<open>
  The CSS sanitizer never fails. (The lexer reads from a buffer in memory, whose only
  error is the end of the input.)
\<close>

definition css_total :: "css_sanitizer \<Rightarrow> (string \<Rightarrow> string) \<Rightarrow> bool" where
  "css_total css f = (\<forall>raw. \<exists>v added. css f raw = Inr (v, added))"

text \<open>
  Every \<^verbatim>\<open>style\<close> element has only text children, and these have no children of their
  own: what the parser builds for a \<^verbatim>\<open>style\<close> element of an HTML document, whose
  content is raw text.
\<close>

fun style_plain :: "Node \<Rightarrow> bool" where
  "style_plain (Node t d as cs) =
     ((t = ElementNode \<and> d = ''style'' \<longrightarrow> (\<forall>c \<in> set cs. Type c = TextNode \<and> Children c = [])) \<and>
      (\<forall>c \<in> set cs. style_plain c))"

text \<open>\<open>nest tag k n\<close>: the node \<open>n\<close> wrapped in \<open>k\<close> nested elements named \<open>tag\<close>.\<close>

fun nest :: "string \<Rightarrow> nat \<Rightarrow> Node \<Rightarrow> Node" where
  "nest tag 0 n = n"
| "nest tag (Suc k) n = Node ElementNode tag [] [nest tag k n]"

text \<open>
  A document whose \<^verbatim>\<open>style\<close> element (inside \<^verbatim>\<open>svg\<close>, where the parser reads its content
  as markup) has a text child followed by 97 nested \<^verbatim>\<open>g\<close> elements around a text: the
  innermost \<^verbatim>\<open>g\<close> is at depth 101, its text at depth 102.
\<close>

definition deep_below_style :: Node where
  "deep_below_style =
     Node DocumentNode [] []
       [Node ElementNode ''html'' []
         [Node ElementNode ''body'' []
           [Node ElementNode ''svg'' []
             [Node ElementNode ''style'' []
               [Node TextNode ''x'' [] [],
                nest ''g'' 97 (Node TextNode ''y'' [] [])]]]]]"

section \<open>Files (package server)\<close>

subsection \<open>Paths\<close>

text \<open>
  \<^verbatim>\<open>filepath.Join\<close> and \<^verbatim>\<open>filepath.Clean\<close> of Go's standard library, for Unix paths, after
  their documentation: the non-empty elements are joined with \<^verbatim>\<open>/\<close> and the result is
  cleaned, that is, empty elements and \<^verbatim>\<open>.\<close> are dropped, an inner \<^verbatim>\<open>..\<close> removes the
  element before it, a \<^verbatim>\<open>..\<close> at the start of a rooted path is dropped, and the empty
  result is \<^verbatim>\<open>.\<close>. The cleaning is purely lexical.
\<close>

fun clean_elems :: "bool \<Rightarrow> string list \<Rightarrow> string list \<Rightarrow> string list" where
  "clean_elems rooted out [] = rev out"
| "clean_elems rooted out (e # es) =
     (if e = [] \<or> e = ''.'' then clean_elems rooted out es
      else if e = ''..'' then
        (case out of
           [] \<Rightarrow> if rooted then clean_elems rooted out es else clean_elems rooted [e] es
         | prev # rest \<Rightarrow>
             if prev = ''..'' then clean_elems rooted (e # out) es
             else clean_elems rooted rest es)
      else clean_elems rooted (e # out) es)"

definition filepath_Clean :: "string \<Rightarrow> string" where
  "filepath_Clean path =
     (if path = [] then ''.''
      else let rooted = (hd path = CHR ''/'');
               body = strings_Join (clean_elems rooted [] (strings_Split path (CHR ''/''))) ''/''
           in if rooted then CHR ''/'' # body
              else if body = [] then ''.'' else body)"

definition filepath_Join :: "string list \<Rightarrow> string" where
  "filepath_Join elems =
     (let es = filter (\<lambda>e. e \<noteq> []) elems
      in if es = [] then [] else filepath_Clean (strings_Join es ''/''))"

subsection \<open>Calls into the file system\<close>

text \<open>
  The writes of the server go through \<^verbatim>\<open>os.Root\<close> (calls that the operating system
  resolves below the open directory and refuses when the name escapes it) and, for the
  rename, through \<^verbatim>\<open>os.Rename\<close>, which takes two path names of the process. The model
  records the calls a function makes, in order, with their arguments; whether a call
  fails is decided by the environment.
\<close>

datatype open_mode = Truncate | Append

datatype fs_call =
    Root_OpenFile string open_mode
  | File_Write string string
  | File_Close string
  | Os_Rename string string

definition writeFileAtomic :: "(fs_call \<Rightarrow> bool) \<Rightarrow> string \<Rightarrow> string \<Rightarrow> string \<Rightarrow>
    error option \<times> fs_call list" where
  "writeFileAtomic fails rootPath slug v =
     (let tmpSlug = slug @ ''.tmp'';
          opn = Root_OpenFile tmpSlug Truncate;
          wrt = File_Write tmpSlug v;
          cls = File_Close tmpSlug;
          ren = Os_Rename (filepath_Join [rootPath, tmpSlug]) (filepath_Join [rootPath, slug])
      in if fails opn then (Some (ErrOther ''failed to open for write''), [opn])
         else if fails wrt then (Some (ErrOther ''failed to write''), [opn, wrt, cls])
         else if fails cls then (Some (ErrOther ''failed to close''), [opn, wrt, cls])
         else if fails ren then (Some (ErrOther ''failed to rename''), [opn, wrt, cls, ren])
         else (None, [opn, wrt, cls, ren]))"

definition appendContents :: "(fs_call \<Rightarrow> bool) \<Rightarrow> string \<Rightarrow> string \<Rightarrow>
    error option \<times> fs_call list" where
  "appendContents fails path contents =
     (let opn = Root_OpenFile path Append;
          wrt = File_Write path contents;
          cls = File_Close path
      in if fails opn then (Some (ErrOther ''failed to open''), [opn])
         else if fails wrt then (Some (ErrOther ''failed to write''), [opn, wrt, cls])
         else if fails cls then (Some (ErrOther ''failed to close''), [opn, wrt, cls])
         else (None, [opn, wrt, cls]))"

text \<open>No call fails.\<close>

definition no_faults :: "fs_call \<Rightarrow> bool" where
  "no_faults c = False"





section \<open>The Prompter (package server)\<close>

text \<open>
  The prompts are built by \<^verbatim>\<open>strings.ReplaceAll\<close> on fixed templates; the model keeps
  which template was used and what was put into it.
\<close>

datatype prompt =
    safetyPrompt string
  | outlinePrompt string
  | htmlPrompt string string string
  | imagePrompt string string

definition unsafeOutline :: string where
  "unsafeOutline = ''UNSAFE''"

definition outlineTXT :: string where
  "outlineTXT = ''outline.txt''"

text \<open>
  What opening a file below the root and reading it whole gives: \<^verbatim>\<open>root.Open\<close> fails
  (with \<open>ErrNotExist\<close> when \<^verbatim>\<open>os.IsNotExist\<close> holds of the error), or \<^verbatim>\<open>io.ReadAll\<close>
  fails, or the contents.
\<close>

datatype file_read = OpenError error | ReadError error | Contents string

text \<open>
  The Prompter's fields \<^verbatim>\<open>site\<close>, \<^verbatim>\<open>rootPath\<close> and \<^verbatim>\<open>outline\<close>. The model client and the
  open root directory are its environment: what \<^verbatim>\<open>gemini.Text\<close> answers to a prompt,
  what reading \<^verbatim>\<open>outline.txt\<close> gives, and which file-system calls fail. The progress
  callback only reports and is left out; the mutex is held by each function for its
  whole body.
\<close>

record defaultPrompter =
  site :: string
  rootPath :: string
  outline :: string

record prompter_env =
  gemini_Text :: "prompt \<Rightarrow> error + string"
  read_outline :: file_read
  outline_fails :: "fs_call \<Rightarrow> bool"

definition genOutline :: "prompter_env \<Rightarrow> defaultPrompter \<Rightarrow> error option \<times> defaultPrompter" where
  "genOutline env p =
     (case gemini_Text env (safetyPrompt (site p)) of
        Inl e \<Rightarrow> (Some e, p)
      | Inr safe \<Rightarrow>
          if safe \<noteq> ''SAFE'' then (None, p\<lparr>outline := unsafeOutline\<rparr>)
          else (case gemini_Text env (outlinePrompt (site p)) of
                  Inl e \<Rightarrow> (Some e, p)
                | Inr ol \<Rightarrow> (None, p\<lparr>outline := ol\<rparr>)))"

definition initOutline :: "prompter_env \<Rightarrow> defaultPrompter \<Rightarrow>
    error option \<times> defaultPrompter \<times> fs_call list" where
  "initOutline env p =
     (if outline p \<noteq> [] then (None, p, [])
      else case read_outline env of
             OpenError e \<Rightarrow>
               if e \<noteq> ErrNotExist then (Some e, p, [])
               else (case genOutline env p of
                       (Some e', p') \<Rightarrow> (Some e', p', [])
                     | (None, p') \<Rightarrow>
                         (case writeFileAtomic (outline_fails env) (rootPath p') outlineTXT (outline p') of
                            (Some e', calls) \<Rightarrow> (Some e', p', calls)
                          | (None, calls) \<Rightarrow> (None, p', calls)))
           | ReadError e \<Rightarrow> (Some e, p, [])
           | Contents v \<Rightarrow> (None, p\<lparr>outline := v\<rparr>, []))"

fun HasSuffix :: "string \<Rightarrow> string \<Rightarrow> bool" where
  "HasSuffix s suffix = (length suffix \<le> length s \<and> drop (length s - length suffix) s = suffix)"

definition GetPromptForSlug :: "prompter_env \<Rightarrow> defaultPrompter \<Rightarrow> string \<Rightarrow> string \<Rightarrow>
    (error + prompt) \<times> defaultPrompter \<times> fs_call list" where
  "GetPromptForSlug env p slug links =
     (let (err, p', calls) = (if outline p = [] then initOutline env p else (None, p, []))
      in case err of
           Some e \<Rightarrow> (Inl e, p', calls)
         | None \<Rightarrow>
             if outline p' = unsafeOutline then (Inl ErrUnsafe, p', calls)
             else if HasSuffix slug ''.jpg'' then (Inr (imagePrompt slug (site p')), p', calls)
             else (Inr (htmlPrompt slug (outline p') links), p', calls))"

text \<open>
  A new site whose topic the safety probe rejects: there is no \<^verbatim>\<open>outline.txt\<close>, the model
  answers \<^verbatim>\<open>NO\<close>, and no file-system call fails.
\<close>

definition rejected_topic :: prompter_env where
  "rejected_topic = \<lparr> gemini_Text = (\<lambda>q. Inr ''NO''),
                       read_outline = OpenError ErrNotExist,
                       outline_fails = no_faults \<rparr>"

definition NewPrompter :: "string \<Rightarrow> string \<Rightarrow> defaultPrompter" where
  "NewPrompter st rp = \<lparr> site = st, rootPath = rp, outline = [] \<rparr>"

section \<open>The Site (package server)\<close>

subsection \<open>State and environment\<close>

definition IndexSlug :: string where
  "IndexSlug = ''index.html''"

definition NotFoundSlug :: string where
  "NotFoundSlug = ''not-found.html''"

definition LinksTXT :: string where
  "LinksTXT = ''links.txt''"

definition newline :: char where
  "newline = CHR 0x0A"

text \<open>
  The fields of \<^verbatim>\<open>defaultSite\<close> that change or are read: \<^verbatim>\<open>resources\<close> maps a slug to the
  \<^verbatim>\<open>size\<close> of its resource (\<open>None\<close> is the nil map of a new site; a resource is reached
  only through this map, so the pointer and the entry are one), \<^verbatim>\<open>rootPath\<close>, \<^verbatim>\<open>links\<close>
  and \<^verbatim>\<open>unsafe\<close>. The mutexes are left out: the model runs one call at a time.
\<close>

record defaultSite =
  resources :: "(string \<rightharpoonup> int) option"
  siteRootPath :: string
  links :: string
  unsafe :: bool

definition NewSite :: "string \<Rightarrow> defaultSite" where
  "NewSite rp = \<lparr> resources = None, siteRootPath = rp, links = [], unsafe = False \<rparr>"

text \<open>
  What a call on the site meets outside the site itself: the standard library, the CSS
  token loop, the files below the root (\<^verbatim>\<open>links.txt\<close>, \<^verbatim>\<open>root.Stat\<close>, failing writes), the
  Prompter, the model client, the image codecs, the HTML transformer and renderer, and
  the order in which \<^verbatim>\<open>range\<close> yields the keys of a map (any order is possible in Go).
\<close>

record site_env =
  lib :: stdlib
  css_loop :: css_sanitizer
  read_links :: file_read
  root_Stat :: "string \<Rightarrow> int option"
  prompter_GetPromptForSlug :: "string \<Rightarrow> string \<Rightarrow> error + prompt"
  gemini_HTML :: "prompt \<Rightarrow> error + Node"
  gemini_PNG :: "nat \<Rightarrow> prompt \<Rightarrow> error + string"
  png_Decode :: "string \<Rightarrow> error + string"
  jpeg_Encode :: "string \<Rightarrow> error + string"
  transformer :: "(Node \<Rightarrow> string set \<Rightarrow> error + (Node \<times> string set)) option"
  html_Render :: "Node \<Rightarrow> error + string"
  range_keys :: "string set \<Rightarrow> string list"
  site_fails :: "fs_call \<Rightarrow> bool"

text \<open>
  What a function hands back: the closures of the Go code are named by what they do
  when called. A call of a Go function ends by returning, by returning an error, or in
  a panic.
\<close>

datatype HandleFunc =
    handleFile string int
  | acceptedStub string
  | internalServerError string
  | returnsError error
  | serveBytes string string

datatype GenerateFunc = generateFuncFor string

datatype 'a result = Panics error | Fails error | Returns 'a

subsection \<open>getResource and initResources\<close>

definition initResources :: "site_env \<Rightarrow> defaultSite \<Rightarrow> error option \<times> defaultSite" where
  "initResources env s =
     (let res0 = [IndexSlug \<mapsto> 0, NotFoundSlug \<mapsto> 0] in
      case read_links env of
        OpenError e \<Rightarrow>
          if e \<noteq> ErrNotExist then (Some e, s\<lparr>resources := Some res0\<rparr>)
          else (None, s\<lparr>resources := Some res0\<rparr>)
      | ReadError e \<Rightarrow> (Some e, s\<lparr>resources := Some res0\<rparr>)
      | Contents content \<Rightarrow>
          (let lines = strings_Split content newline @ [IndexSlug, NotFoundSlug];
               add = (\<lambda>line0 res.
                        let line = strings_TrimSpace (lib env) line0 in
                        if length line = 0 then res
                        else res(line \<mapsto> (case root_Stat env line of Some sz \<Rightarrow> sz | None \<Rightarrow> 0)))
           in (None, s\<lparr>resources := Some (fold add lines res0)\<rparr>)))"

definition getResource :: "site_env \<Rightarrow> defaultSite \<Rightarrow> string \<Rightarrow> (error + int) \<times> defaultSite" where
  "getResource env s slug =
     (let (err, s1) = (if resources s = None then initResources env s else (None, s))
      in case err of
           Some e \<Rightarrow> (Inl e, s1)
         | None \<Rightarrow>
             (case resources s1 of
                None \<Rightarrow> (Inl ErrNotFound, s1)
              | Some res \<Rightarrow>
                  (case res slug of
                     None \<Rightarrow> (Inl ErrNotFound, s1)
                   | Some sz \<Rightarrow> (Inr sz, s1))))"

subsection \<open>Handle\<close>

definition handleGenerate :: "string \<Rightarrow> HandleFunc option \<times> GenerateFunc option \<times> error option" where
  "handleGenerate slug = (Some (acceptedStub slug), Some (generateFuncFor slug), None)"

definition Handle :: "site_env \<Rightarrow> defaultSite \<Rightarrow> string \<Rightarrow>
    (HandleFunc option \<times> GenerateFunc option \<times> error option) \<times> defaultSite" where
  "Handle env s slug =
     (if unsafe s then ((None, None, Some ErrUnsafe), s)
      else case getResource env s slug of
             (Inl e, s1) \<Rightarrow> ((None, None, Some e), s1)
           | (Inr sz, s1) \<Rightarrow>
               if sz > 0 then ((Some (handleFile slug sz), None, None), s1)
               else (handleGenerate slug, s1))"

subsection \<open>Generation\<close>

text \<open>\<^verbatim>\<open>extensionForSlug\<close> panics on a slug without a dot.\<close>

definition extensionForSlug :: "string \<Rightarrow> string result" where
  "extensionForSlug slug =
     (case LastIndexByte slug (CHR ''.'') of
        None \<Rightarrow> Panics ErrInvalidSlug
      | Some idx \<Rightarrow> Returns (drop idx slug))"

text \<open>The loop \<^verbatim>\<open>for attempt := range 3\<close> of \<^verbatim>\<open>generateJPG\<close>: it stops at the first success.\<close>

fun try_PNG :: "site_env \<Rightarrow> prompt \<Rightarrow> nat list \<Rightarrow> error + string" where
  "try_PNG env q [] = Inr []"
| "try_PNG env q (attempt # later) =
     (case gemini_PNG env attempt q of
        Inr raw \<Rightarrow> Inr raw
      | Inl e \<Rightarrow> if later = [] then Inl e else try_PNG env q later)"

definition generateJPG :: "site_env \<Rightarrow> prompt \<Rightarrow> error + string" where
  "generateJPG env q =
     (case try_PNG env q [0, 1, 2] of
        Inl e \<Rightarrow> Inl e
      | Inr raw \<Rightarrow>
          (case png_Decode env raw of
             Inl e \<Rightarrow> Inl e
           | Inr img \<Rightarrow> jpeg_Encode env img))"

text \<open>
  The loop \<^verbatim>\<open>for u := range urls\<close> of \<^verbatim>\<open>generateHTML\<close>, over the keys in the order the
  runtime yields them: a URL that is not yet a key of \<^verbatim>\<open>resources\<close> is written to the
  string builder, followed by a newline, and inserted with size 0.
\<close>

fun journal :: "string list \<Rightarrow> (string \<rightharpoonup> int) \<Rightarrow> string \<times> (string \<rightharpoonup> int)" where
  "journal [] res = ([], res)"
| "journal (u # us) res =
     (case res u of
        Some sz \<Rightarrow> journal us res
      | None \<Rightarrow> (let (sb, res') = journal us (res(u \<mapsto> 0)) in (u @ [newline] @ sb, res')))"

definition generateHTML :: "site_env \<Rightarrow> defaultSite \<Rightarrow> prompt \<Rightarrow>
    string result \<times> defaultSite \<times> fs_call list" where
  "generateHTML env s q =
     (case gemini_HTML env q of
        Inl e \<Rightarrow> (Fails e, s, [])
      | Inr doc \<Rightarrow>
          (case HTMLSanitizeAndExtractUrls (lib env) (css_loop env) doc {} (sanitizeURL (lib env)) of
             Inl e \<Rightarrow> (Fails e, s, [])
           | Inr (doc1, urls1) \<Rightarrow>
               (case (case transformer env of
                        None \<Rightarrow> Inr (doc1, urls1)
                      | Some t \<Rightarrow> t doc1 urls1) of
                  Inl e \<Rightarrow> (Fails e, s, [])
                | Inr (doc2, urls2) \<Rightarrow>
                    (case resources s of
                       None \<Rightarrow>
                         if range_keys env urls2 \<noteq> []
                         then (Panics (ErrOther ''assignment to entry in nil map''), s, [])
                         else (case html_Render env doc2 of
                                 Inl e \<Rightarrow> (Fails e, s, [])
                               | Inr v \<Rightarrow> (Returns v, s, []))
                     | Some res \<Rightarrow>
                         (let (sb, res') = journal (range_keys env urls2) res;
                              s1 = s\<lparr>resources := Some res'\<rparr>;
                              (aerr, calls) = (if length sb > 0
                                               then appendContents (site_fails env) LinksTXT sb
                                               else (None, []))
                          in case aerr of
                               Some e \<Rightarrow> (Fails e, s1, calls)
                             | None \<Rightarrow>
                                 (case html_Render env doc2 of
                                    Inl e \<Rightarrow> (Fails e, s1, calls)
                                  | Inr v \<Rightarrow> (Returns v, s1, calls)))))))"

definition generate :: "site_env \<Rightarrow> defaultSite \<Rightarrow> string \<Rightarrow>
    string result \<times> defaultSite \<times> fs_call list" where
  "generate env s slug =
     (case prompter_GetPromptForSlug env slug (links s) of
        Inl e \<Rightarrow> (Fails e, s, [])
      | Inr q \<Rightarrow>
          (case extensionForSlug slug of
             Panics e \<Rightarrow> (Panics e, s, [])
           | Fails e \<Rightarrow> (Fails e, s, [])
           | Returns ext \<Rightarrow>
               (let (r, s1, calls) =
                      (if ext = ExtensionHTML then generateHTML env s q
                       else if ext = ExtensionJPG then
                         (case generateJPG env q of
                            Inl e \<Rightarrow> (Fails e, s, [])
                          | Inr v \<Rightarrow> (Returns v, s, []))
                       else (Panics ErrInvalidSlug, s, []))
                in case r of
                     Returns v \<Rightarrow>
                       if length v = 0 then (Fails ErrUnexpectedSize, s1, calls)
                       else (Returns v, s1, calls)
                   | Fails e \<Rightarrow> (Fails e, s1, calls)
                   | Panics e \<Rightarrow> (Panics e, s1, calls))))"

text \<open>
  The body of the \<^verbatim>\<open>GenerateFunc\<close> that \<^verbatim>\<open>handleGenerate\<close> returns for \<open>slug\<close>. The test
  \<^verbatim>\<open>errors.Is(err, ErrUnsafe)\<close> is the comparison with the sentinel.
\<close>

definition generateFunc :: "site_env \<Rightarrow> defaultSite \<Rightarrow> string \<Rightarrow>
    HandleFunc result \<times> defaultSite \<times> fs_call list" where
  "generateFunc env s slug =
     (case getResource env s slug of
        (Inl e, s1) \<Rightarrow> (Returns (internalServerError ''failed to initResources''), s1, [])
      | (Inr sz, s1) \<Rightarrow>
          if sz > 0 then (Returns (handleFile slug sz), s1, [])
          else (case generate env s1 slug of
                  (Panics e, s2, calls) \<Rightarrow> (Panics e, s2, calls)
                | (Fails e, s2, calls) \<Rightarrow>
                    if e = ErrUnsafe
                    then (Returns (returnsError e), s2\<lparr>unsafe := True\<rparr>, calls)
                    else (Returns (internalServerError ''failed to generate''), s2, calls)
                | (Returns v, s2, calls) \<Rightarrow>
                    (case writeFileAtomic (site_fails env) (siteRootPath s2) slug v of
                       (Some e, wcalls) \<Rightarrow>
                         (Returns (internalServerError ''failed to write generated file''),
                          s2, calls @ wcalls)
                     | (None, wcalls) \<Rightarrow>
                         (Returns (serveBytes slug v),
                          s2\<lparr>resources :=
                               map_option (\<lambda>res. res(slug \<mapsto> int (length v))) (resources s2)\<rparr>,
                          calls @ wcalls))))"

subsection \<open>Runs of a site\<close>

text \<open>
  The operations on a site are \<^verbatim>\<open>Handle\<close> and the call of a \<^verbatim>\<open>GenerateFunc\<close> it has
  returned, each in the environment it meets.
\<close>

datatype site_op = OpHandle site_env string | OpGenerate site_env string

fun site_step :: "defaultSite \<Rightarrow> site_op \<Rightarrow> defaultSite" where
  "site_step s (OpHandle env slug) = snd (Handle env s slug)"
| "site_step s (OpGenerate env slug) = fst (snd (generateFunc env s slug))"

text \<open>
  An environment for the examples: no \<^verbatim>\<open>links.txt\<close> and no file yet, no write fails, the
  Prompter answers with \<open>answer\<close>, the model returns the document \<open>doc\<close>, the renderer
  writes a fixed text, and \<^verbatim>\<open>range\<close> yields the keys in the order \<open>order\<close>.
\<close>

definition example_env :: "(error + prompt) \<Rightarrow> Node \<Rightarrow> string list \<Rightarrow> site_env" where
  "example_env answer doc order =
     \<lparr> lib = path_only,
       css_loop = css_no_urls,
       read_links = OpenError ErrNotExist,
       root_Stat = (\<lambda>name. None),
       prompter_GetPromptForSlug = (\<lambda>slug lnks. answer),
       gemini_HTML = (\<lambda>q. Inr doc),
       gemini_PNG = (\<lambda>attempt q. Inl (ErrOther ''no image'')),
       png_Decode = (\<lambda>raw. Inr raw),
       jpeg_Encode = (\<lambda>img. Inr img),
       transformer = None,
       html_Render = (\<lambda>d. Inr ''<html></html>''),
       range_keys = (\<lambda>keys. order),
       site_fails = no_faults \<rparr>"

text \<open>A page with one link to a PDF file.\<close>

definition pdf_link_document :: Node where
  "pdf_link_document = Node DocumentNode [] []
     [Node ElementNode ''a'' [\<lparr>Namespace = [], Key = ''href'', Val = ''report.pdf''\<rparr>] []]"


section \<open>Properties of sanitizeURL\<close>

subsection \<open>Trimming and replacing\<close>

lemma Trim_hyphen_prefix:
  "dropWhile (\<lambda>c. c = CHR ''-'') s =
     Trim_hyphen s @
     rev (takeWhile (\<lambda>c. c = CHR ''-'') (rev (dropWhile (\<lambda>c. c = CHR ''-'') s)))"
  unfolding Trim_hyphen_def
  by (metis rev_append rev_rev_ident takeWhile_dropWhile_id)

lemma Trim_hyphen_hd:
  assumes "Trim_hyphen s \<noteq> []"
  shows "hd (Trim_hyphen s) \<noteq> CHR ''-''"
proof -
  let ?t = "dropWhile (\<lambda>c. c = CHR ''-'') s"
  obtain X where t: "?t = Trim_hyphen s @ X"
    using Trim_hyphen_prefix by blast
  with assms have "?t \<noteq> []" and "hd ?t = hd (Trim_hyphen s)"
    by simp_all
  moreover from \<open>?t \<noteq> []\<close> have "\<not> (hd ?t = CHR ''-'')"
    by (rule hd_dropWhile)
  ultimately show ?thesis by simp
qed

lemma Trim_hyphen_last:
  assumes "Trim_hyphen s \<noteq> []"
  shows "last (Trim_hyphen s) \<noteq> CHR ''-''"
proof -
  let ?u = "dropWhile (\<lambda>c. c = CHR ''-'') (rev (dropWhile (\<lambda>c. c = CHR ''-'') s))"
  from assms have "?u \<noteq> []" by (simp add: Trim_hyphen_def)
  then have "\<not> (hd ?u = CHR ''-'')" by (rule hd_dropWhile)
  then show ?thesis by (simp add: Trim_hyphen_def last_rev)
qed

lemma Trim_hyphen_set: "set (Trim_hyphen s) \<subseteq> set s"
  unfolding Trim_hyphen_def
  by (auto dest!: set_dropWhileD)

lemma replace_slug_char: "list_all slug_char (sanitizeRe_ReplaceAllString s)"
  by (induction s rule: sanitizeRe_ReplaceAllString.induct) (auto simp: slug_char_def)

lemma safe_slug_stem:
  assumes "Trim_hyphen (sanitizeRe_ReplaceAllString p) \<noteq> []"
  shows "slug_stem (Trim_hyphen (sanitizeRe_ReplaceAllString p))"
proof -
  have "list_all slug_char (Trim_hyphen (sanitizeRe_ReplaceAllString p))"
    using replace_slug_char [of p] Trim_hyphen_set [of "sanitizeRe_ReplaceAllString p"]
    by (auto simp: list_all_iff)
  with assms show ?thesis
    by (simp add: slug_stem_def Trim_hyphen_hd Trim_hyphen_last)
qed

lemma slug_html: "slug_stem t \<Longrightarrow> well_formed_slug (t @ ''.html'')"
  by (simp add: well_formed_slug_def)

lemma slug_jpg: "slug_stem t \<Longrightarrow> well_formed_slug (t @ ''.jpg'')"
  by (simp add: well_formed_slug_def)

lemma slug_index: "well_formed_slug ''index.html''"
  by (simp add: well_formed_slug_def slug_stem_def slug_char_def lower_alnum_def byte_def)

lemma sanitizeURL_data_or_slug:
  "sanitizeURL L v = ''data:'' \<or> well_formed_slug (sanitizeURL L v)"
  by (auto simp: sanitizeURL_def Let_def ExtensionHTML_def ExtensionJPG_def slug_index
      intro!: slug_html slug_jpg safe_slug_stem
      split: option.splits prod.splits)

lemma lower_alnum_ascii: "lower_alnum c \<Longrightarrow> byte c < 128"
  by (auto simp: lower_alnum_def)

lemma lower_alnum_lower: "lower_alnum c \<Longrightarrow> ascii_lower c = c"
  by (auto simp: lower_alnum_def ascii_lower_def)

lemma byte_char_of: "n < 256 \<Longrightarrow> byte (char_of n) = n"
  by (simp add: byte_def)

lemma lower_alnum_not_dot: "lower_alnum c \<Longrightarrow> c \<noteq> CHR ''.''"
  by (auto simp: lower_alnum_def byte_def)


lemma map_lower_alnum: "list_all lower_alnum a \<Longrightarrow> map ascii_lower a = a"
  by (induction a) (auto simp: lower_alnum_lower)

lemma LastIndexByte_None: "b \<notin> set s \<Longrightarrow> LastIndexByte s b = None"
  by (induction s) auto

lemma LastIndexByte_append: "b \<notin> set t \<Longrightarrow> LastIndexByte (t @ b # u) b = 
   (case LastIndexByte u b of None \<Rightarrow> Some (length t) | Some i \<Rightarrow> Some (length t + Suc i))"
  by (induction t) (auto split: option.splits)

lemma replace_alnum_append:
  "list_all lower_alnum a \<Longrightarrow>
   sanitizeRe_ReplaceAllString (a @ s) = a @ sanitizeRe_ReplaceAllString s"
  by (induction a) auto

lemma Trim_hyphen_id:
  "s \<noteq> [] \<Longrightarrow> hd s \<noteq> CHR ''-'' \<Longrightarrow> last s \<noteq> CHR ''-'' \<Longrightarrow> Trim_hyphen s = s"
proof -
  assume a: "s \<noteq> []" "hd s \<noteq> CHR ''-''" "last s \<noteq> CHR ''-''"
  from a have 1: "dropWhile (\<lambda>c. c = CHR ''-'') s = s"
    by (cases s) auto
  from a have "rev s \<noteq> []" "hd (rev s) \<noteq> CHR ''-''"
    by (simp_all add: hd_rev)
  then have 2: "dropWhile (\<lambda>c. c = CHR ''-'') (rev s) = rev s"
    by (cases "rev s") auto
  show ?thesis
    by (simp add: Trim_hyphen_def 1 2)
qed


lemma ToLower_ascii: "list_all (\<lambda>c. byte c < 128) s \<Longrightarrow> strings_ToLower L s = map ascii_lower s"
  by (simp add: strings_ToLower_def)

lemma replace_alnum: "list_all lower_alnum a \<Longrightarrow> sanitizeRe_ReplaceAllString a = a"
  using replace_alnum_append [of a "[]"] by simp

lemma slug_stem_fixed:
  assumes t: "slug_stem t"
  shows "sanitizeRe_ReplaceAllString t = t"
proof -
  have "list_all slug_char t \<Longrightarrow> sanitizeRe_ReplaceAllString t = t"
    by (induction t) (auto simp: slug_char_def byte_def)
  with t show ?thesis by (simp add: slug_stem_def)
qed

lemma slug_char_ascii: "slug_char c \<Longrightarrow> byte c < 128"
  using lower_alnum_ascii [of c] by (cases "lower_alnum c") (simp_all add: slug_char_def byte_def)

lemma slug_char_lower: "slug_char c \<Longrightarrow> ascii_lower c = c"
  using lower_alnum_lower [of c]
  by (cases "lower_alnum c") (simp_all add: slug_char_def ascii_lower_def byte_def)

lemma slug_char_not_dot: "slug_char c \<Longrightarrow> c \<noteq> CHR ''.''"
  using lower_alnum_not_dot [of c] by (cases "lower_alnum c") (simp_all add: slug_char_def)

lemma ext_ascii: "e = ''.html'' \<or> e = ''.jpg'' \<Longrightarrow> list_all (\<lambda>c. byte c < 128) e"
  by (auto simp: byte_def)

lemma ext_lower: "e = ''.html'' \<or> e = ''.jpg'' \<Longrightarrow> map ascii_lower e = e"
  by (auto simp: ascii_lower_def byte_def)

lemma sanitizeURL_stem_ext:
  assumes parse: "url_Parse L (t @ e) = Some \<lparr> Path = t @ e, RawQuery = [] \<rparr>"
    and t: "slug_stem t" and e: "e = ''.html'' \<or> e = ''.jpg''"
  shows "sanitizeURL L (t @ e) = t @ e"
proof -
  have tc: "list_all slug_char t" and tne: "t \<noteq> []"
    using t by (simp_all add: slug_stem_def)
  have "list_all (\<lambda>c. byte c < 128) t"
    using tc by (induction t) (simp_all add: slug_char_ascii)
  then have ascii: "list_all (\<lambda>c. byte c < 128) (t @ e)"
    using ext_ascii [OF e] by simp
  have "map ascii_lower t = t"
    using tc by (induction t) (simp_all add: slug_char_lower)
  then have low: "strings_ToLower L (t @ e) = t @ e"
    using ext_lower [OF e] by (simp add: ToLower_ascii [OF ascii])
  have nodot: "CHR ''.'' \<notin> set t"
    using tc slug_char_not_dot by (auto simp: list_all_iff)
  have idx: "LastIndexByte (t @ e) (CHR ''.'') = Some (length t)"
  proof -
    from e obtain e' where e': "e = CHR ''.'' # e'" "CHR ''.'' \<notin> set e'"
      by auto
    show ?thesis
      using LastIndexByte_append [OF nodot, of e'] LastIndexByte_None [OF e'(2)]
      by (simp add: e'(1))
  qed
  have trim: "Trim_hyphen t = t"
    using t by (intro Trim_hyphen_id) (simp_all add: slug_stem_def)
  have path: "Path \<lparr> Path = t @ e, RawQuery = [] \<rparr> = t @ e"
    and query: "RawQuery \<lparr> Path = t @ e, RawQuery = [] \<rparr> = []"
    by simp_all
  have res: "sanitizeURL L (t @ e) =
      (if e \<in> {''.jpg'', ''.jpeg'', ''.png'', ''.gif'', ''.webp'', ''.svg''} then t @ ExtensionJPG
       else if e \<in> {[], ''.html'', ''.htm''} then t @ ExtensionHTML else ''data:'')"
    using tne
    by (simp add: sanitizeURL_def parse Let_def low idx slug_stem_fixed [OF t] trim
        del: insert_iff)
  from e show ?thesis
    unfolding res by (auto simp: ExtensionHTML_def ExtensionJPG_def)
qed

lemma well_formed_slug_split:
  assumes "well_formed_slug s"
  obtains t e where "s = t @ e" "slug_stem t" "e = ''.html'' \<or> e = ''.jpg''"
proof -
  from assms consider
    (h) "drop (length s - 5) s = ''.html''" "slug_stem (take (length s - 5) s)"
  | (j) "drop (length s - 4) s = ''.jpg''" "slug_stem (take (length s - 4) s)"
    by (auto simp: well_formed_slug_def)
  then show ?thesis
  proof cases
    case h
    have "s = take (length s - 5) s @ drop (length s - 5) s" by simp
    with h that show ?thesis by metis
  next
    case j
    have "s = take (length s - 4) s @ drop (length s - 4) s" by simp
    with j that show ?thesis by metis
  qed
qed

lemma sanitizeURL_pieces:
  assumes "url_Parse L v = Some u" and "Path u \<noteq> []"
  shows "sanitizeURL L v =
     (if safe_stem_of L u = [] then ''index.html''
      else if extension_of L u \<in> image_extensions then safe_stem_of L u @ ExtensionJPG
      else if extension_of L u \<in> html_extensions then safe_stem_of L u @ ExtensionHTML
      else ''data:'')"
  using assms
  by (simp add: sanitizeURL_def safe_stem_of_def extension_of_def Let_def
      image_extensions_def html_extensions_def split: option.splits del: insert_iff)






lemma replace_ascii_map:
  "list_all (\<lambda>e. byte e < 128) s \<Longrightarrow>
   sanitizeRe_ReplaceAllString s = map (\<lambda>e. if lower_alnum e then e else CHR ''-'') s"
  by (induction s) simp_all


subsection \<open>C10: the range of sanitizeURL\<close>

text \<open>
  C10. For every input string \<open>v\<close>, whatever \<^verbatim>\<open>url.Parse\<close> and the Unicode tables
  return, \<open>sanitizeURL v\<close> is either the literal \<^verbatim>\<open>data:\<close> or a well-formed slug: a
  non-empty stem over \<^verbatim>\<open>[a-z0-9-]\<close> with no leading or trailing hyphen, followed by
  exactly one extension, \<^verbatim>\<open>.html\<close> or \<^verbatim>\<open>.jpg\<close>. In particular it is never empty.
\<close>

theorem sanitizeURL_range:
  "(sanitizeURL L v = ''data:'' \<or> well_formed_slug (sanitizeURL L v)) \<and> sanitizeURL L v \<noteq> []"
proof
  show "sanitizeURL L v = ''data:'' \<or> well_formed_slug (sanitizeURL L v)"
    by (rule sanitizeURL_data_or_slug)
  show "sanitizeURL L v \<noteq> []"
    by (auto simp: sanitizeURL_def Let_def ExtensionHTML_def ExtensionJPG_def
        split: option.splits prod.splits)
qed

theorem sanitizeURL_range_witness:
  "sanitizeURL path_only ''/Foo Bar.PNG'' = ''foo-bar.jpg'' \<and> well_formed_slug ''foo-bar.jpg''"
proof -
  have e: "sanitizeURL path_only ''/Foo Bar.PNG'' = ''foo-bar.jpg''"
    by code_simp
  with sanitizeURL_range [of path_only "''/Foo Bar.PNG''"] show ?thesis
    by simp
qed

subsection \<open>C6: runs of separators\<close>




subsection \<open>C5: idempotence\<close>

text \<open>
  C5. \<^verbatim>\<open>sanitizeURL\<close> is idempotent on its non-sentinel range: whenever \<open>sanitizeURL x\<close>
  is not the literal \<^verbatim>\<open>data:\<close>, applying \<^verbatim>\<open>sanitizeURL\<close> to it again returns it
  unchanged. The one fact used about \<^verbatim>\<open>url.Parse\<close> is that it returns a well-formed slug
  (which has no scheme, query, fragment or escape) whole as the path.
\<close>

theorem sanitizeURL_idempotent:
  assumes parse: "\<And>s. well_formed_slug s \<Longrightarrow> url_Parse L s = Some \<lparr> Path = s, RawQuery = [] \<rparr>"
    and nd: "sanitizeURL L x \<noteq> ''data:''"
  shows "sanitizeURL L (sanitizeURL L x) = sanitizeURL L x"
proof -
  from nd sanitizeURL_data_or_slug [of L x] have w: "well_formed_slug (sanitizeURL L x)"
    by simp
  then obtain t e where s: "sanitizeURL L x = t @ e" and t: "slug_stem t"
    and e: "e = ''.html'' \<or> e = ''.jpg''"
    by (rule well_formed_slug_split)
  from parse [OF w] s have "url_Parse L (t @ e) = Some \<lparr> Path = t @ e, RawQuery = [] \<rparr>"
    by simp
  from sanitizeURL_stem_ext [OF this t e] s show ?thesis by simp
qed

theorem sanitizeURL_idempotent_witness:
  "sanitizeURL path_only ''/Foo Bar.PNG'' \<noteq> ''data:'' \<and>
   sanitizeURL path_only (sanitizeURL path_only ''/Foo Bar.PNG'') = ''foo-bar.jpg''"
proof -
  have e: "sanitizeURL path_only ''/Foo Bar.PNG'' = ''foo-bar.jpg''"
    by code_simp
  have p: "\<And>s. well_formed_slug s \<Longrightarrow>
      url_Parse path_only s = Some \<lparr> Path = s, RawQuery = [] \<rparr>"
    by (simp add: path_only_def)
  from e have nd: "sanitizeURL path_only ''/Foo Bar.PNG'' \<noteq> ''data:''"
    by simp
  from sanitizeURL_idempotent [of path_only "''/Foo Bar.PNG''", OF p nd] e nd show ?thesis
    by simp
qed

section \<open>Properties of the HTML sanitizer\<close>

subsection \<open>Depth\<close>

lemma fold_max_Max: "fold max xs (a::nat) = Max (set (a # xs))"
  using Max.set_eq_fold [of a xs] by simp

lemma height_le_iff: "height n \<le> k \<longleftrightarrow> (\<forall>c \<in> set (Children n). Suc (height c) \<le> k)"
  by (cases n) (auto simp: fold_max_Max)

lemma height_child: "c \<in> set (Children n) \<Longrightarrow> Suc (height c) \<le> height n"
  using height_le_iff [of n "height n"] by simp

lemma height_gt: "k < height n \<Longrightarrow> \<exists>c \<in> set (Children n). k < Suc (height c)"
  using height_le_iff [of n k] by (auto simp: not_le)

lemma height_set_Data: "height (set_Data c v) = height c"
  by (cases c) (simp add: set_Data_def)


lemma Children_set_Data: "Children (set_Data c v) = Children c"
  by (simp add: set_Data_def)

lemma Attr_set_Data: "Attr (set_Data c v) = Attr c"
  by (simp add: set_Data_def)

lemma sanitizeStyleNode_empty:
  "concat (map Data (filter (\<lambda>c. Type c = TextNode) cs)) = [] \<Longrightarrow>
   sanitizeStyleNode css f cs urls = Inr (cs, urls)"
  by (simp add: sanitizeStyleNode_def)

lemma sanitizeStyleNode_text:
  assumes "concat (map Data (filter (\<lambda>c. Type c = TextNode) cs)) = buf" and "buf \<noteq> []"
  shows "sanitizeStyleNode css f cs urls =
     (case CSSSanitizeAndExtractUrls css f buf of
        Inl e \<Rightarrow> Inl e
      | Inr (v, added) \<Rightarrow>
          if length (takeWhile (\<lambda>c. Type c \<noteq> TextNode) cs) < length cs \<and>
             Suc (length (takeWhile (\<lambda>c. Type c \<noteq> TextNode) cs)) = length cs \<and>
             \<not> \<not> list_all (\<lambda>c. Type c = TextNode) cs
          then Inr (cs[length (takeWhile (\<lambda>c. Type c \<noteq> TextNode) cs) :=
                       set_Data (cs ! length (takeWhile (\<lambda>c. Type c \<noteq> TextNode) cs)) v],
                    urls \<union> set added)
          else Inr ([Node TextNode v [] []], urls \<union> set added))"
proof -
  from assms(2) have "length buf \<noteq> 0" by simp
  then show ?thesis
    unfolding sanitizeStyleNode_def Let_def assms(1) by (simp only: if_False)
qed

lemma style_cases:
  assumes "sanitizeStyleNode css f cs urls = Inr (cs', urls')"
  shows "(cs' = cs \<and> urls' = urls) \<or>
         (\<exists>v added. urls' = urls \<union> set added \<and> cs \<noteq> [] \<and>
            ((\<exists>i < length cs. Type (cs ! i) = TextNode \<and> cs' = cs[i := set_Data (cs ! i) v]) \<or>
             cs' = [Node TextNode v [] []]))"
proof (cases "concat (map Data (filter (\<lambda>c. Type c = TextNode) cs)) = []")
  case True
  from assms sanitizeStyleNode_empty [OF True, of css f urls] show ?thesis by simp
next
  case False
  then have ne: "cs \<noteq> []" by auto
  let ?buf = "concat (map Data (filter (\<lambda>c. Type c = TextNode) cs))"
  let ?i = "length (takeWhile (\<lambda>c. Type c \<noteq> TextNode) cs)"
  note eq = sanitizeStyleNode_text [OF refl False, of css f urls]
  have ty: "?i < length cs \<Longrightarrow> Type (cs ! ?i) = TextNode"
    using nth_length_takeWhile [of "\<lambda>c. Type c \<noteq> TextNode" cs] by simp
  show ?thesis
  proof (cases "CSSSanitizeAndExtractUrls css f ?buf")
    case (Inl e)
    with assms eq show ?thesis by simp
  next
    case (Inr r)
    obtain v added where r: "r = (v, added)" by (cases r)
    show ?thesis
    proof (cases "?i < length cs \<and> Suc ?i = length cs \<and> list_all (\<lambda>c. Type c = TextNode) cs")
      case True
      with Inr r assms eq have "cs' = cs[?i := set_Data (cs ! ?i) v]" "urls' = urls \<union> set added"
        by simp_all
      with True ty ne show ?thesis by blast
    next
      case F2: False
      with Inr r assms eq have "cs' = [Node TextNode v [] []]" "urls' = urls \<union> set added"
        by auto
      with ne show ?thesis by blast
    qed
  qed
qed

lemma style_children_height:
  assumes "sanitizeStyleNode css f cs urls = Inr (cs', urls')" and "c' \<in> set cs'"
  shows "\<exists>c \<in> set cs. height c' \<le> height c"
proof -
  from style_cases [OF assms(1)] consider
    (same) "cs' = cs"
  | (edit) v i where "i < length cs" "cs' = cs[i := set_Data (cs ! i) v]"
  | (fresh) v where "cs \<noteq> []" "cs' = [Node TextNode v [] []]"
    by blast
  then show ?thesis
  proof cases
    case same
    with assms(2) show ?thesis by auto
  next
    case edit
    from assms(2) edit(2) have "c' \<in> insert (set_Data (cs ! i) v) (set cs)"
      using set_update_subset_insert [of cs i] by blast
    with edit(1) show ?thesis
      by (auto simp: height_set_Data intro: bexI [of _ "cs ! i"])
  next
    case fresh
    with assms(2) have "height c' = 0" by simp
    with fresh(1) show ?thesis by (cases cs) auto
  qed
qed

lemma element_step_cases:
  assumes "element_step L css f n urls = Inr (n1, urls1)"
  obtains urlsA where "sanitize_attrs L css f (Attr n) urls = Inr (Attr n1, urlsA)"
    and "Type n1 = Type n" and "Data n1 = Data n"
    and "if Data n = ''style''
         then sanitizeStyleNode css f (Children n) urlsA = Inr (Children n1, urls1)
         else Children n1 = Children n \<and> urls1 = urlsA"
proof (cases "sanitize_attrs L css f (Attr n) urls")
  case (Inl e)
  with assms show ?thesis by (simp add: element_step_def)
next
  case (Inr r)
  obtain as urlsA where r: "r = (as, urlsA)" by (cases r)
  show ?thesis
  proof (cases "Data n = ''style''")
    case True
    show ?thesis
    proof (cases "sanitizeStyleNode css f (Children n) urlsA")
      case (Inl e)
      with assms Inr r True show ?thesis by (simp add: element_step_def)
    next
      case I2: (Inr q)
      obtain cs u2 where q: "q = (cs, u2)" by (cases q)
      from assms Inr r True I2 q have "n1 = Node (Type n) (Data n) as cs" "urls1 = u2"
        by (simp_all add: element_step_def)
      with that [of urlsA] Inr r True I2 q show ?thesis by simp
    qed
  next
    case False
    from assms Inr r False have "n1 = Node (Type n) (Data n) as (Children n)" "urls1 = urlsA"
      by (simp_all add: element_step_def)
    with that [of urlsA] Inr r False show ?thesis by simp
  qed
qed

lemma element_step_children_height:
  assumes "element_step L css f n urls = Inr (n1, urls1)" and "c' \<in> set (Children n1)"
  shows "\<exists>c \<in> set (Children n). height c' \<le> height c"
proof -
  from assms(1) obtain urlsA where
    c: "if Data n = ''style''
         then sanitizeStyleNode css f (Children n) urlsA = Inr (Children n1, urls1)
         else Children n1 = Children n \<and> urls1 = urlsA"
    by (rule element_step_cases)
  show ?thesis
  proof (cases "Data n = ''style''")
    case True
    with c assms(2) style_children_height show ?thesis by simp
  next
    case False
    with c assms(2) show ?thesis by auto
  qed
qed

lemma CSS_not_MaxDepth: "CSSSanitizeAndExtractUrls css f raw \<noteq> Inl ErrMaxDepthExceeded"
  by (simp add: CSSSanitizeAndExtractUrls_def split: sum.splits)

lemma sanitize_attr_not_MaxDepth: "sanitize_attr L css f a urls \<noteq> Inl ErrMaxDepthExceeded"
  using CSS_not_MaxDepth [of css f "Val a"]
  by (auto simp: sanitize_attr_def Let_def split: sum.splits prod.splits)

lemma sanitize_attrs_not_MaxDepth: "sanitize_attrs L css f as urls \<noteq> Inl ErrMaxDepthExceeded"
  by (induction as arbitrary: urls) (auto simp: sanitize_attr_not_MaxDepth split: sum.splits)

lemma sanitizeStyleNode_not_MaxDepth: "sanitizeStyleNode css f cs urls \<noteq> Inl ErrMaxDepthExceeded"
proof (cases "concat (map Data (filter (\<lambda>c. Type c = TextNode) cs)) = []")
  case True
  then show ?thesis by (simp add: sanitizeStyleNode_empty)
next
  case False
  show ?thesis
    using CSS_not_MaxDepth [of css f "concat (map Data (filter (\<lambda>c. Type c = TextNode) cs))"]
    by (auto simp: sanitizeStyleNode_text [OF refl False] split: sum.splits)
qed

lemma element_step_not_MaxDepth: "element_step L css f n urls \<noteq> Inl ErrMaxDepthExceeded"
  using sanitize_attrs_not_MaxDepth [of L css f "Attr n" urls]
  by (auto simp: element_step_def sanitizeStyleNode_not_MaxDepth split: sum.splits)

lemma walk_Inl_unfold:
  assumes "walk L css f n d urls = Inl e" and "\<not> maxDepth < d"
  shows "(if Type n = ElementNode then element_step L css f n urls else Inr (n, urls)) = Inl e \<or>
         (\<exists>n1 urls1. (if Type n = ElementNode then element_step L css f n urls else Inr (n, urls)) = Inr (n1, urls1) \<and>
            walk_children L css f (Children n1) (d + 1) urls1 = Inl e)"
  using assms
  by (subst (asm) walk.simps) (auto split: if_splits sum.splits)


lemma walk_children_Cons_Inl:
  assumes "walk_children L css f (c # cs) d urls = Inl e"
  shows "walk L css f c d urls = Inl e \<or>
         (\<exists>c' u1. walk L css f c d urls = Inr (c', u1) \<and> walk_children L css f cs d u1 = Inl e)"
  using assms by (auto split: sum.splits prod.splits)


lemma walk_MaxDepth_height:
  "walk L css f n d urls = Inl ErrMaxDepthExceeded \<Longrightarrow> maxDepth < d + height n"
  "walk_children L css f cs d urls = Inl ErrMaxDepthExceeded \<Longrightarrow> \<exists>c \<in> set cs. maxDepth < d + height c"
proof (induction L css f n d urls and L css f cs d urls rule: walk_walk_children.induct)
  case (1 L css f n depth urls)
  show ?case
  proof (cases "depth > maxDepth")
    case True
    then show ?thesis by simp
  next
    case False
    let ?step = "if Type n = ElementNode then element_step L css f n urls else Inr (n, urls)"
    have no_step: "?step \<noteq> Inl ErrMaxDepthExceeded"
      by (simp add: element_step_not_MaxDepth)
    from walk_Inl_unfold [OF "1.prems" False] no_step obtain n1 urls1 where
      step: "?step = Inr (n1, urls1)"
      and ch: "walk_children L css f (Children n1) (depth + 1) urls1 = Inl ErrMaxDepthExceeded"
      by blast
    from "1.IH" [OF False step refl ch] obtain c' where
      c': "c' \<in> set (Children n1)" "maxDepth < depth + 1 + height c'"
      by auto
    have "\<exists>c \<in> set (Children n). height c' \<le> height c"
      using step c'(1) element_step_children_height
      by (cases "Type n = ElementNode") auto
    then obtain c where "c \<in> set (Children n)" "height c' \<le> height c" by blast
    with c'(2) height_child [of c n] show ?thesis by simp
  qed
next
  case (2 L css f depth urls)
  then show ?case by simp
next
  case (3 L css f c cs depth urls)
  show ?case
  proof (cases "walk L css f c depth urls")
    case (Inl e)
    with "3.prems" have "walk L css f c depth urls = Inl ErrMaxDepthExceeded" by simp
    from "3.IH"(1) [OF this] show ?thesis by simp
  next
    case (Inr r)
    obtain c' urls1 where r: "r = (c', urls1)" by (cases r)
    from walk_children_Cons_Inl [OF "3.prems"] Inr r
    have "walk_children L css f cs depth urls1 = Inl ErrMaxDepthExceeded"
      by auto
    from "3.IH"(2) [OF Inr r [symmetric] this] show ?thesis by simp
  qed
qed


lemma CSS_total:
  assumes "css_total css f"
  obtains v added where "CSSSanitizeAndExtractUrls css f raw = Inr (v, added)"
proof -
  from assms obtain v added where "css f raw = Inr (v, added)"
    unfolding css_total_def by blast
  then have "CSSSanitizeAndExtractUrls css f raw = Inr (v, added)"
    by (simp add: CSSSanitizeAndExtractUrls_def)
  then show thesis by (rule that)
qed

lemma sanitize_attr_total:
  assumes "css_total css f"
  shows "\<exists>a' u'. sanitize_attr L css f a urls = Inr (a', u')"
proof -
  obtain v added where "CSSSanitizeAndExtractUrls css f (Val a) = Inr (v, added)"
    using assms by (rule CSS_total)
  then show ?thesis
    by (simp add: sanitize_attr_def Let_def split: prod.splits)
qed

lemma sanitize_attrs_total:
  assumes "css_total css f"
  shows "\<exists>as' u'. sanitize_attrs L css f as urls = Inr (as', u')"
proof (induction as arbitrary: urls)
  case Nil
  show ?case by simp
next
  case (Cons a as)
  from sanitize_attr_total [OF assms] obtain a' u1 where
    "sanitize_attr L css f a urls = Inr (a', u1)" by blast
  moreover from Cons.IH obtain as' u2 where
    "sanitize_attrs L css f as u1 = Inr (as', u2)" by blast
  ultimately show ?case by simp
qed

lemma sanitizeStyleNode_total:
  assumes "css_total css f"
  shows "\<exists>cs' u'. sanitizeStyleNode css f cs urls = Inr (cs', u')"
proof (cases "concat (map Data (filter (\<lambda>c. Type c = TextNode) cs)) = []")
  case True
  then show ?thesis by (simp add: sanitizeStyleNode_empty)
next
  case False
  obtain v added where
    "CSSSanitizeAndExtractUrls css f (concat (map Data (filter (\<lambda>c. Type c = TextNode) cs))) = Inr (v, added)"
    using assms by (rule CSS_total)
  then show ?thesis
    by (simp add: sanitizeStyleNode_text [OF refl False])
qed

lemma element_step_total:
  assumes "css_total css f"
  shows "\<exists>n1 u1. element_step L css f n urls = Inr (n1, u1)"
proof -
  from sanitize_attrs_total [OF assms] obtain as ua where
    a: "sanitize_attrs L css f (Attr n) urls = Inr (as, ua)" by blast
  from sanitizeStyleNode_total [OF assms] obtain cs ub where
    "sanitizeStyleNode css f (Children n) ua = Inr (cs, ub)" by blast
  with a show ?thesis by (simp add: element_step_def)
qed

lemma style_plain_iff:
  "style_plain n \<longleftrightarrow>
     ((Type n = ElementNode \<and> Data n = ''style'' \<longrightarrow>
         (\<forall>c \<in> set (Children n). Type c = TextNode \<and> Children c = [])) \<and>
      (\<forall>c \<in> set (Children n). style_plain c))"
  by (cases n) simp

lemma leaf_height: "Children c = [] \<Longrightarrow> height c = 0"
  by (cases c) simp

lemma leaf_plain: "Children c = [] \<Longrightarrow> style_plain c"
  by (cases c) simp

lemma style_leaves:
  assumes r: "sanitizeStyleNode css f cs urls = Inr (cs', urls')"
    and l: "\<forall>c \<in> set cs. Type c = TextNode \<and> Children c = []"
  shows "(\<forall>c' \<in> set cs'. Children c' = []) \<and> (cs \<noteq> [] \<longrightarrow> cs' \<noteq> [])"
proof -
  from style_cases [OF r] consider
    (same) "cs' = cs"
  | (edit) v i where "i < length cs" "cs' = cs[i := set_Data (cs ! i) v]"
  | (fresh) v where "cs \<noteq> []" "cs' = [Node TextNode v [] []]"
    by blast
  then show ?thesis
  proof cases
    case same
    with l show ?thesis by simp
  next
    case edit
    have "\<forall>c' \<in> set cs'. Children c' = []"
    proof
      fix c' assume "c' \<in> set cs'"
      with edit(2) have "c' \<in> insert (set_Data (cs ! i) v) (set cs)"
        using set_update_subset_insert [of cs i] by blast
      with l edit(1) show "Children c' = []"
        by (auto simp: Children_set_Data)
    qed
    with edit show ?thesis by auto
  next
    case fresh
    then show ?thesis by simp
  qed
qed

lemma element_step_plain:
  assumes r: "element_step L css f n urls = Inr (n1, urls1)"
    and el: "Type n = ElementNode"
    and p: "style_plain n"
    and deep: "\<exists>c \<in> set (Children n). k < Suc (height c)"
  shows "(\<forall>c' \<in> set (Children n1). style_plain c') \<and> (\<exists>c' \<in> set (Children n1). k < Suc (height c'))"
proof -
  from r obtain urlsA where
    ty: "Type n1 = Type n" and
    c: "if Data n = ''style''
         then sanitizeStyleNode css f (Children n) urlsA = Inr (Children n1, urls1)
         else Children n1 = Children n \<and> urls1 = urlsA"
    by (rule element_step_cases)
  show ?thesis
  proof (cases "Type n = ElementNode \<and> Data n = ''style''")
    case True
    with p style_plain_iff [of n]
    have l: "\<forall>c \<in> set (Children n). Type c = TextNode \<and> Children c = []"
      by blast
    from True c have s: "sanitizeStyleNode css f (Children n) urlsA = Inr (Children n1, urls1)"
      by simp
    from deep l have k: "k = 0" and ne: "Children n \<noteq> []"
      by (auto simp: leaf_height)
    from style_leaves [OF s l] ne have a: "\<forall>c' \<in> set (Children n1). Children c' = []"
      and b: "Children n1 \<noteq> []" by simp_all
    from b obtain c' where "c' \<in> set (Children n1)" by (cases "Children n1") auto
    with a k show ?thesis by (auto simp: leaf_plain)
  next
    case False
    with el c have "Children n1 = Children n" by simp
    with p deep style_plain_iff [of n] show ?thesis by simp
  qed
qed


lemma walk_too_deep: "maxDepth < d \<Longrightarrow> walk L css f n d urls = Inl ErrMaxDepthExceeded"
  by (subst walk.simps) simp

lemma step_total:
  assumes "css_total css f"
  obtains n1 urls1 where
    "(if Type n = ElementNode then element_step L css f n urls else Inr (n, urls)) = Inr (n1, urls1)"
  using element_step_total [OF assms, of L n urls] by (cases "Type n = ElementNode") auto

lemma walk_error_kind:
  "css_total css f \<Longrightarrow> walk L css f n d urls = Inl e \<Longrightarrow> e = ErrMaxDepthExceeded"
  "css_total css f \<Longrightarrow> walk_children L css f cs d urls = Inl e \<Longrightarrow> e = ErrMaxDepthExceeded"
proof (induction L css f n d urls and L css f cs d urls rule: walk_walk_children.induct)
  case (1 L css f n depth urls)
  show ?case
  proof (cases "depth > maxDepth")
    case True
    with "1.prems"(2) walk_too_deep [OF True, of L css f n urls] show ?thesis by simp
  next
    case False
    obtain n1 urls1 where
      step: "(if Type n = ElementNode then element_step L css f n urls else Inr (n, urls)) = Inr (n1, urls1)"
      using "1.prems"(1) by (rule step_total)
    with walk_Inl_unfold [OF "1.prems"(2) False]
    have "walk_children L css f (Children n1) (depth + 1) urls1 = Inl e" by simp
    from "1.IH" [OF False step refl "1.prems"(1) this] show ?thesis .
  qed
next
  case (2 L css f depth urls)
  then show ?case by simp
next
  case (3 L css f c cs depth urls)
  from walk_children_Cons_Inl [OF "3.prems"(2)] show ?case
  proof
    assume "walk L css f c depth urls = Inl e"
    from "3.IH"(1) [OF "3.prems"(1) this] show ?thesis .
  next
    assume "\<exists>c' u1. walk L css f c depth urls = Inr (c', u1) \<and> walk_children L css f cs depth u1 = Inl e"
    then obtain c' u1 where w: "walk L css f c depth urls = Inr (c', u1)"
      and ch: "walk_children L css f cs depth u1 = Inl e" by blast
    from "3.IH"(2) [OF w refl "3.prems"(1) ch] show ?thesis .
  qed
qed

lemma walk_deep_rejected:
  "css_total css f \<Longrightarrow> style_plain n \<Longrightarrow> maxDepth < d + height n \<Longrightarrow>
     walk L css f n d urls = Inl ErrMaxDepthExceeded"
  "css_total css f \<Longrightarrow> \<forall>c \<in> set cs. style_plain c \<Longrightarrow> \<exists>c \<in> set cs. maxDepth < d + height c \<Longrightarrow>
     walk_children L css f cs d urls = Inl ErrMaxDepthExceeded"
proof (induction L css f n d urls and L css f cs d urls rule: walk_walk_children.induct)
  case (1 L css f n depth urls)
  show ?case
  proof (cases "depth > maxDepth")
    case True
    then show ?thesis by (rule walk_too_deep)
  next
    case False
    obtain n1 urls1 where
      step: "(if Type n = ElementNode then element_step L css f n urls else Inr (n, urls)) = Inr (n1, urls1)"
      using "1.prems"(1) by (rule step_total)
    from "1.prems"(3) False have "maxDepth - depth < height n" by simp
    from height_gt [OF this] have deep: "\<exists>c \<in> set (Children n). maxDepth - depth < Suc (height c)" .
    have "(\<forall>c' \<in> set (Children n1). style_plain c') \<and>
          (\<exists>c' \<in> set (Children n1). maxDepth - depth < Suc (height c'))"
    proof (cases "Type n = ElementNode")
      case True
      with step have "element_step L css f n urls = Inr (n1, urls1)" by simp
      from element_step_plain [OF this True "1.prems"(2) deep] show ?thesis .
    next
      case F: False
      with step have "n1 = n" by simp
      with "1.prems"(2) deep style_plain_iff [of n] show ?thesis by simp
    qed
    then obtain c' where a: "\<forall>c' \<in> set (Children n1). style_plain c'"
      and c': "c' \<in> set (Children n1)" "maxDepth - depth < Suc (height c')"
      by blast
    from c'(2) False have "maxDepth < depth + 1 + height c'" by arith
    with c'(1) have b: "\<exists>c' \<in> set (Children n1). maxDepth < depth + 1 + height c'" ..
    from "1.IH" [OF False step refl "1.prems"(1) a b]
    have "walk_children L css f (Children n1) (depth + 1) urls1 = Inl ErrMaxDepthExceeded" .
    with False step show ?thesis
      by (subst walk.simps) simp
  qed
next
  case (2 L css f depth urls)
  then show ?case by simp
next
  case (3 L css f c cs depth urls)
  show ?case
  proof (cases "walk L css f c depth urls")
    case (Inl e)
    from walk_error_kind(1) [OF "3.prems"(1) Inl] Inl show ?thesis by simp
  next
    case (Inr r)
    obtain c' u1 where r: "r = (c', u1)" by (cases r)
    have "\<not> maxDepth < depth + height c"
    proof
      assume "maxDepth < depth + height c"
      with "3.IH"(1) [OF "3.prems"(1)] "3.prems"(2) Inr show False by simp
    qed
    with "3.prems"(3) have "\<exists>c \<in> set cs. maxDepth < depth + height c" by auto
    with "3.IH"(2) [OF Inr r [symmetric] "3.prems"(1)] "3.prems"(2)
    have "walk_children L css f cs depth u1 = Inl ErrMaxDepthExceeded" by simp
    with Inr r show ?thesis by simp
  qed
qed

text \<open>
  C8, as the specification states it, fails in the direction "a node deeper than 100 is
  rejected": the document \<open>deep_below_style\<close> has nodes at depth 101 and 102, and is
  sanitized without error. The children of its \<^verbatim>\<open>style\<close> element are replaced by one text
  node before the walk descends, so the deep nodes are dropped unvisited.
\<close>

theorem HTMLSanitize_depth_counterexample:
  "maxDepth < height deep_below_style \<and>
   HTMLSanitizeAndExtractUrls path_only css_no_urls deep_below_style {} (sanitizeURL path_only) =
     Inr (Node DocumentNode [] []
            [Node ElementNode ''html'' []
              [Node ElementNode ''body'' []
                [Node ElementNode ''svg'' []
                  [Node ElementNode ''style'' [] [Node TextNode ''x'' [] []]]]]], {})"
  by code_simp

text \<open>
  C8 (amended). \<^verbatim>\<open>HTMLSanitizeAndExtractUrls\<close> returns \<^verbatim>\<open>MaxDepthExceeded\<close> only if the
  document tree contains a node at depth greater than 100 (the root at depth 0). When
  the CSS sanitizer does not fail, every document whose tree depth is at most 100 is
  sanitized without error, and a document with a node deeper than 100 is rejected with
  \<^verbatim>\<open>MaxDepthExceeded\<close> provided every \<^verbatim>\<open>style\<close> element has only childless text children.
\<close>

theorem HTMLSanitize_depth:
  "(HTMLSanitizeAndExtractUrls L css doc urls f = Inl ErrMaxDepthExceeded \<longrightarrow>
      maxDepth < height doc) \<and>
   (css_total css f \<and> height doc \<le> maxDepth \<longrightarrow>
      (\<exists>doc' urls'. HTMLSanitizeAndExtractUrls L css doc urls f = Inr (doc', urls'))) \<and>
   (css_total css f \<and> style_plain doc \<and> maxDepth < height doc \<longrightarrow>
      HTMLSanitizeAndExtractUrls L css doc urls f = Inl ErrMaxDepthExceeded)"
proof (intro conjI impI)
  assume "HTMLSanitizeAndExtractUrls L css doc urls f = Inl ErrMaxDepthExceeded"
  with walk_MaxDepth_height(1) [of L css f doc 0 urls] show "maxDepth < height doc"
    by (simp add: HTMLSanitizeAndExtractUrls_def)
next
  assume a: "css_total css f \<and> height doc \<le> maxDepth"
  show "\<exists>doc' urls'. HTMLSanitizeAndExtractUrls L css doc urls f = Inr (doc', urls')"
  proof (cases "walk L css f doc 0 urls")
    case (Inl e)
    with a walk_error_kind(1) [of css f L doc 0 urls e]
    have "walk L css f doc 0 urls = Inl ErrMaxDepthExceeded" by simp
    with walk_MaxDepth_height(1) [of L css f doc 0 urls] a show ?thesis by simp
  next
    case (Inr r)
    then show ?thesis by (cases r) (simp add: HTMLSanitizeAndExtractUrls_def)
  qed
next
  assume "css_total css f \<and> style_plain doc \<and> maxDepth < height doc"
  with walk_deep_rejected(1) [of css f doc 0 L urls]
  show "HTMLSanitizeAndExtractUrls L css doc urls f = Inl ErrMaxDepthExceeded"
    by (simp add: HTMLSanitizeAndExtractUrls_def)
qed

theorem HTMLSanitize_depth_witness:
  "css_total css_no_urls (\<lambda>u. u) \<and>
   height (nest ''div'' 100 (Node TextNode ''x'' [] [])) \<le> maxDepth \<and>
   (\<exists>doc' urls'. HTMLSanitizeAndExtractUrls path_only css_no_urls
       (nest ''div'' 100 (Node TextNode ''x'' [] [])) {} (\<lambda>u. u) = Inr (doc', urls')) \<and>
   style_plain (nest ''div'' 101 (Node TextNode ''x'' [] [])) \<and>
   maxDepth < height (nest ''div'' 101 (Node TextNode ''x'' [] [])) \<and>
   HTMLSanitizeAndExtractUrls path_only css_no_urls
       (nest ''div'' 101 (Node TextNode ''x'' [] [])) {} (\<lambda>u. u) = Inl ErrMaxDepthExceeded"
proof -
  have t: "css_total css_no_urls (\<lambda>u. u)"
    by (simp add: css_total_def css_no_urls_def)
  have h0: "height (nest ''div'' 100 (Node TextNode ''x'' [] [])) \<le> maxDepth"
    by code_simp
  have p1: "style_plain (nest ''div'' 101 (Node TextNode ''x'' [] []))"
    by code_simp
  have h1: "maxDepth < height (nest ''div'' 101 (Node TextNode ''x'' [] []))"
    by code_simp
  from HTMLSanitize_depth [of path_only css_no_urls "nest ''div'' 100 (Node TextNode ''x'' [] [])" "{}" "\<lambda>u. u"]
    HTMLSanitize_depth [of path_only css_no_urls "nest ''div'' 101 (Node TextNode ''x'' [] [])" "{}" "\<lambda>u. u"]
    t h0 p1 h1
  show ?thesis by blast
qed

subsection \<open>URL attributes\<close>



lemma style_not_url_attr: "''style'' \<notin> set url_attrs"
  by (simp add: url_attrs_def)


















section \<open>Properties of the atomic writer\<close>

subsection \<open>Joining a directory and a plain file name\<close>
















subsection \<open>C9: the final rename\<close>




section \<open>Properties of the Prompter\<close>

text \<open>
  C1, as the specification states it, fails: on a new site whose safety probe is
  answered \<^verbatim>\<open>NO\<close>, \<^verbatim>\<open>initOutline\<close> sets the outline to \<^verbatim>\<open>UNSAFE\<close> and then writes
  \<^verbatim>\<open>outline.txt\<close>, with the sentinel as its contents.
\<close>

theorem initOutline_counterexample:
  "initOutline rejected_topic (NewPrompter ''cats'' ''content/cats'') =
     (None, \<lparr> site = ''cats'', rootPath = ''content/cats'', outline = ''UNSAFE'' \<rparr>,
      [Root_OpenFile ''outline.txt.tmp'' Truncate,
       File_Write ''outline.txt.tmp'' ''UNSAFE'',
       File_Close ''outline.txt.tmp'',
       Os_Rename ''content/cats/outline.txt.tmp'' ''content/cats/outline.txt''])"
  by code_simp

lemma genOutline_unsafe:
  assumes "gemini_Text env (safetyPrompt (site p)) = Inr answer" and "answer \<noteq> ''SAFE''"
  shows "genOutline env p = (None, p\<lparr>outline := unsafeOutline\<rparr>)"
  using assms by (simp add: genOutline_def)

text \<open>
  C1 (amended). If there is no outline yet and no \<^verbatim>\<open>outline.txt\<close>, and the safety probe's
  answer is not exactly the text \<^verbatim>\<open>SAFE\<close>, the Prompter sets the in-memory outline to the
  sentinel \<^verbatim>\<open>UNSAFE\<close> and persists the sentinel: it calls \<^verbatim>\<open>writeFileAtomic\<close> for
  \<^verbatim>\<open>outline.txt\<close> with the bytes \<^verbatim>\<open>UNSAFE\<close>, and returns what that call returns. When no
  file-system call fails, \<^verbatim>\<open>outline.txt.tmp\<close> is written with \<^verbatim>\<open>UNSAFE\<close> and renamed to
  \<^verbatim>\<open>outline.txt\<close> in the site directory, and \<^verbatim>\<open>GetPromptForSlug\<close> returns the Unsafe error.
\<close>

theorem initOutline_persists_sentinel:
  assumes fresh: "outline p = []"
    and absent: "read_outline env = OpenError ErrNotExist"
    and probe: "gemini_Text env (safetyPrompt (site p)) = Inr answer"
    and no: "answer \<noteq> ''SAFE''"
  shows "initOutline env p =
           (fst (writeFileAtomic (outline_fails env) (rootPath p) outlineTXT unsafeOutline),
            p\<lparr>outline := unsafeOutline\<rparr>,
            snd (writeFileAtomic (outline_fails env) (rootPath p) outlineTXT unsafeOutline)) \<and>
         ((\<forall>c. \<not> outline_fails env c) \<longrightarrow>
            initOutline env p =
              (None, p\<lparr>outline := unsafeOutline\<rparr>,
               [Root_OpenFile ''outline.txt.tmp'' Truncate,
                File_Write ''outline.txt.tmp'' ''UNSAFE'',
                File_Close ''outline.txt.tmp'',
                Os_Rename (filepath_Join [rootPath p, ''outline.txt.tmp''])
                          (filepath_Join [rootPath p, ''outline.txt''])]) \<and>
            fst (GetPromptForSlug env p slug lnks) = Inl ErrUnsafe)"
proof -
  let ?W = "writeFileAtomic (outline_fails env) (rootPath p) outlineTXT unsafeOutline"
  have g: "genOutline env p = (None, p\<lparr>outline := unsafeOutline\<rparr>)"
    using probe no by (rule genOutline_unsafe)
  have i: "initOutline env p = (fst ?W, p\<lparr>outline := unsafeOutline\<rparr>, snd ?W)"
    using fresh absent g
    by (cases ?W) (auto simp: initOutline_def split: option.splits)
  have w: "(\<forall>c. \<not> outline_fails env c) \<Longrightarrow> ?W =
      (None, [Root_OpenFile ''outline.txt.tmp'' Truncate,
                File_Write ''outline.txt.tmp'' ''UNSAFE'',
                File_Close ''outline.txt.tmp'',
                Os_Rename (filepath_Join [rootPath p, ''outline.txt.tmp''])
                          (filepath_Join [rootPath p, ''outline.txt''])])"
    by (simp add: writeFileAtomic_def Let_def outlineTXT_def unsafeOutline_def)
  have "(\<forall>c. \<not> outline_fails env c) \<Longrightarrow> fst (GetPromptForSlug env p slug lnks) = Inl ErrUnsafe"
    using fresh i w by (simp add: GetPromptForSlug_def)
  with i w show ?thesis by simp
qed

theorem initOutline_persists_sentinel_witness:
  "outline (NewPrompter ''cats'' ''content/cats'') = [] \<and>
   read_outline rejected_topic = OpenError ErrNotExist \<and>
   gemini_Text rejected_topic (safetyPrompt ''cats'') = Inr ''NO'' \<and>
   snd (snd (initOutline rejected_topic (NewPrompter ''cats'' ''content/cats''))) =
     [Root_OpenFile ''outline.txt.tmp'' Truncate,
      File_Write ''outline.txt.tmp'' ''UNSAFE'',
      File_Close ''outline.txt.tmp'',
      Os_Rename ''content/cats/outline.txt.tmp'' ''content/cats/outline.txt''] \<and>
   fst (GetPromptForSlug rejected_topic (NewPrompter ''cats'' ''content/cats'') ''index.html'' []) =
     Inl ErrUnsafe"
proof -
  have f: "outline (NewPrompter ''cats'' ''content/cats'') = []"
    by (simp add: NewPrompter_def)
  have a: "read_outline rejected_topic = OpenError ErrNotExist"
    by (simp add: rejected_topic_def)
  have g: "gemini_Text rejected_topic (safetyPrompt (site (NewPrompter ''cats'' ''content/cats''))) = Inr ''NO''"
    by (simp add: rejected_topic_def)
  have n: "''NO'' \<noteq> ''SAFE''" by simp
  have q: "\<forall>c. \<not> outline_fails rejected_topic c"
    by (simp add: rejected_topic_def no_faults_def)
  have j1: "filepath_Join [''content/cats'', ''outline.txt.tmp''] = ''content/cats/outline.txt.tmp''"
    by code_simp
  have j2: "filepath_Join [''content/cats'', ''outline.txt''] = ''content/cats/outline.txt''"
    by code_simp
  have rp: "rootPath (NewPrompter ''cats'' ''content/cats'') = ''content/cats''"
    and st: "site (NewPrompter ''cats'' ''content/cats'') = ''cats''"
    by (simp_all add: NewPrompter_def)
  from initOutline_persists_sentinel [OF f a g n, of "''index.html''" "[]"] q
  have "initOutline rejected_topic (NewPrompter ''cats'' ''content/cats'') =
              (None, (NewPrompter ''cats'' ''content/cats'')\<lparr>outline := unsafeOutline\<rparr>,
               [Root_OpenFile ''outline.txt.tmp'' Truncate,
                File_Write ''outline.txt.tmp'' ''UNSAFE'',
                File_Close ''outline.txt.tmp'',
                Os_Rename (filepath_Join [rootPath (NewPrompter ''cats'' ''content/cats''), ''outline.txt.tmp''])
                          (filepath_Join [rootPath (NewPrompter ''cats'' ''content/cats''), ''outline.txt''])])"
    and u: "fst (GetPromptForSlug rejected_topic (NewPrompter ''cats'' ''content/cats'') ''index.html'' []) =
     Inl ErrUnsafe"
    by blast+
  then have "snd (snd (initOutline rejected_topic (NewPrompter ''cats'' ''content/cats''))) =
     [Root_OpenFile ''outline.txt.tmp'' Truncate,
      File_Write ''outline.txt.tmp'' ''UNSAFE'',
      File_Close ''outline.txt.tmp'',
      Os_Rename ''content/cats/outline.txt.tmp'' ''content/cats/outline.txt'']"
    by (simp add: rp j1 j2)
  with f a g u show ?thesis by (simp add: st)
qed

section \<open>Properties of the Site\<close>

subsection \<open>The unsafe flag\<close>

lemma initResources_unsafe: "unsafe (snd (initResources env s)) = unsafe s"
  by (simp add: initResources_def Let_def split: file_read.splits)

lemma getResource_snd:
  "snd (getResource env s slug) = (if resources s = None then snd (initResources env s) else s)"
  by (auto simp: getResource_def split: prod.splits option.splits)

lemma getResource_unsafe: "unsafe (snd (getResource env s slug)) = unsafe s"
  by (simp add: getResource_snd initResources_unsafe)

lemma generateHTML_unsafe: "unsafe (fst (snd (generateHTML env s q))) = unsafe s"
  unfolding generateHTML_def Let_def
  by (auto split: sum.splits option.splits prod.splits)

lemma generate_unsafe: "unsafe (fst (snd (generate env s slug))) = unsafe s"
proof (cases "prompter_GetPromptForSlug env slug (links s)")
  case (Inl e)
  then show ?thesis by (simp add: generate_def)
next
  case (Inr q)
  show ?thesis
  proof (cases "extensionForSlug slug")
    case (Panics e)
    with Inr show ?thesis by (simp add: generate_def)
  next
    case (Fails e)
    with Inr show ?thesis by (simp add: generate_def)
  next
    case (Returns ext)
    show ?thesis
    proof (cases "ext = ExtensionHTML")
      case True
      obtain r s1 calls where h: "generateHTML env s q = (r, s1, calls)"
        by (cases "generateHTML env s q")
      with generateHTML_unsafe [of env s q] have "unsafe s1 = unsafe s" by simp
      with Inr Returns True h show ?thesis
        by (cases r) (simp_all add: generate_def)
    next
      case False
      show ?thesis
      proof (cases "ext = ExtensionJPG")
        case True
        with Inr Returns False show ?thesis
          by (cases "generateJPG env q") (simp_all add: generate_def)
      next
        case F2: False
        with Inr Returns False show ?thesis by (simp add: generate_def)
      qed
    qed
  qed
qed

lemma generateFunc_unsafe:
  "unsafe (fst (snd (generateFunc env s slug))) \<longleftrightarrow>
     unsafe s \<or>
     (\<exists>sz. fst (getResource env s slug) = Inr sz \<and> \<not> 0 < sz \<and>
        fst (generate env (snd (getResource env s slug)) slug) = Fails ErrUnsafe)"
proof -
  obtain x s1 where g: "getResource env s slug = (x, s1)" by (cases "getResource env s slug")
  with getResource_unsafe [of env s slug] have u1: "unsafe s1 = unsafe s" by simp
  show ?thesis
  proof (cases x)
    case (Inl e)
    with g u1 show ?thesis by (simp add: generateFunc_def)
  next
    case (Inr sz)
    show ?thesis
    proof (cases "0 < sz")
      case True
      with g u1 Inr show ?thesis by (simp add: generateFunc_def)
    next
      case False
      obtain r s2 calls where h: "generate env s1 slug = (r, s2, calls)"
        by (cases "generate env s1 slug")
      with generate_unsafe [of env s1 slug] u1 have u2: "unsafe s2 = unsafe s" by simp
      show ?thesis
      proof (cases r)
        case (Panics e)
        with g Inr False h u2 show ?thesis by (simp add: generateFunc_def)
      next
        case (Fails e)
        with g Inr False h u2 show ?thesis by (simp add: generateFunc_def)
      next
        case (Returns v)
        obtain we wcalls where
          w: "writeFileAtomic (site_fails env) (siteRootPath s2) slug v = (we, wcalls)"
          by (cases "writeFileAtomic (site_fails env) (siteRootPath s2) slug v")
        with g Inr False h u2 Returns show ?thesis
          by (cases we) (simp_all add: generateFunc_def)
      qed
    qed
  qed
qed

lemma Handle_unsafe: "unsafe s \<Longrightarrow> Handle env s slug = ((None, None, Some ErrUnsafe), s)"
  by (simp add: Handle_def)

lemma Handle_keeps_unsafe: "unsafe (snd (Handle env s slug)) = unsafe s"
  using getResource_unsafe [of env s slug]
  by (auto simp: Handle_def split: prod.splits sum.splits)

lemma site_step_unsafe: "unsafe s \<Longrightarrow> unsafe (site_step s op)"
  by (cases op) (simp_all add: Handle_keeps_unsafe generateFunc_unsafe)

lemma run_unsafe: "unsafe s \<Longrightarrow> unsafe (foldl site_step s ops)"
  by (induction ops arbitrary: s) (simp_all add: site_step_unsafe)

text \<open>
  C3. A generation that gets the Unsafe error from the Prompter sets the site's
  \<^verbatim>\<open>unsafe\<close> flag. Once the flag is set, it stays set through every sequence of
  operations on the site (calls of \<^verbatim>\<open>Handle\<close> and of the \<^verbatim>\<open>GenerateFunc\<close>s it returned,
  in any environment), and every call of \<^verbatim>\<open>Handle\<close>, for every slug, returns the Unsafe
  error and neither a \<^verbatim>\<open>HandleFunc\<close> nor a \<^verbatim>\<open>GenerateFunc\<close>, leaving the site as it is.
\<close>

theorem unsafe_is_sticky:
  "(fst (getResource env s slug) = Inr 0 \<and>
    prompter_GetPromptForSlug env slug (links (snd (getResource env s slug))) = Inl ErrUnsafe \<longrightarrow>
      unsafe (site_step s (OpGenerate env slug))) \<and>
   (unsafe s \<longrightarrow>
      unsafe (foldl site_step s ops) \<and>
      Handle env' (foldl site_step s ops) slug' =
        ((None, None, Some ErrUnsafe), foldl site_step s ops))"
proof (intro conjI impI)
  assume a: "fst (getResource env s slug) = Inr 0 \<and>
    prompter_GetPromptForSlug env slug (links (snd (getResource env s slug))) = Inl ErrUnsafe"
  then have "fst (generate env (snd (getResource env s slug)) slug) = Fails ErrUnsafe"
    by (simp add: generate_def)
  with a show "unsafe (site_step s (OpGenerate env slug))"
    by (simp add: generateFunc_unsafe)
next
  assume "unsafe s"
  then show "unsafe (foldl site_step s ops)" by (rule run_unsafe)
next
  assume "unsafe s"
  then have "unsafe (foldl site_step s ops)" by (rule run_unsafe)
  then show "Handle env' (foldl site_step s ops) slug' =
        ((None, None, Some ErrUnsafe), foldl site_step s ops)"
    by (rule Handle_unsafe)
qed

theorem unsafe_is_sticky_witness:
  "fst (getResource (example_env (Inl ErrUnsafe) pdf_link_document []) (NewSite ''content/cats'')
         ''index.html'') = Inr 0 \<and>
   unsafe (site_step (NewSite ''content/cats'')
             (OpGenerate (example_env (Inl ErrUnsafe) pdf_link_document []) ''index.html'')) \<and>
   fst (Handle (example_env (Inr (htmlPrompt ''index.html'' ''outline'' [])) pdf_link_document [''data:''])
         (foldl site_step
            (site_step (NewSite ''content/cats'')
               (OpGenerate (example_env (Inl ErrUnsafe) pdf_link_document []) ''index.html''))
            [OpHandle (example_env (Inr (htmlPrompt ''index.html'' ''outline'' [])) pdf_link_document [''data:'']) ''index.html'',
             OpGenerate (example_env (Inr (htmlPrompt ''index.html'' ''outline'' [])) pdf_link_document [''data:'']) ''index.html''])
         ''not-found.html'') = (None, None, Some ErrUnsafe)"
proof -
  let ?envU = "example_env (Inl ErrUnsafe) pdf_link_document []"
  let ?envOK = "example_env (Inr (htmlPrompt ''index.html'' ''outline'' [])) pdf_link_document [''data:'']"
  let ?s0 = "NewSite ''content/cats''"
  let ?s1 = "site_step ?s0 (OpGenerate ?envU ''index.html'')"
  let ?ops = "[OpHandle ?envOK ''index.html'', OpGenerate ?envOK ''index.html'']"
  have g: "fst (getResource ?envU ?s0 ''index.html'') = Inr 0"
    by code_simp
  have q: "prompter_GetPromptForSlug ?envU ''index.html'' (links (snd (getResource ?envU ?s0 ''index.html''))) = Inl ErrUnsafe"
    by (simp add: example_env_def)
  from unsafe_is_sticky [of ?envU ?s0 "''index.html''"] g q
  have u: "unsafe ?s1" by blast
  from unsafe_is_sticky [of _ ?s1 _ ?ops ?envOK "''not-found.html''"] u
  have "Handle ?envOK (foldl site_step ?s1 ?ops) ''not-found.html'' =
        ((None, None, Some ErrUnsafe), foldl site_step ?s1 ?ops)" by blast
  then have "fst (Handle ?envOK (foldl site_step ?s1 ?ops) ''not-found.html'') = (None, None, Some ErrUnsafe)"
    by simp
  with g u show ?thesis by blast
qed

subsection \<open>The sentinel in the link journal\<close>

lemma journal_keeps: "res u = Some sz \<Longrightarrow> snd (journal order res) u = Some sz"
proof (induction order arbitrary: res)
  case Nil
  then show ?case by simp
next
  case (Cons x xs)
  show ?case
  proof (cases "res x")
    case None
    obtain sb res' where j: "journal xs (res(x \<mapsto> 0)) = (sb, res')"
      by (cases "journal xs (res(x \<mapsto> 0))")
    from None Cons.prems have "(res(x \<mapsto> 0)) u = Some sz" by auto
    then have "snd (journal xs (res(x \<mapsto> 0))) u = Some sz" by (rule Cons.IH)
    with j have "res' u = Some sz" by simp
    moreover from None j have "journal (x # xs) res = (x @ [newline] @ sb, res')" by simp
    ultimately show ?thesis by simp
  next
    case (Some a)
    from Cons.prems have "snd (journal xs res) u = Some sz" by (rule Cons.IH)
    with Some show ?thesis by simp
  qed
qed

lemma journal_new:
  "u \<in> set order \<Longrightarrow> res u = None \<Longrightarrow>
     snd (journal order res) u = Some 0 \<and>
     (\<exists>pre post. fst (journal order res) = pre @ u @ [newline] @ post)"
proof (induction order arbitrary: res)
  case Nil
  then show ?case by simp
next
  case (Cons x xs)
  show ?case
  proof (cases "x = u")
    case True
    obtain sb res' where j: "journal xs (res(u \<mapsto> 0)) = (sb, res')"
      by (cases "journal xs (res(u \<mapsto> 0))")
    have "(res(u \<mapsto> 0)) u = Some 0" by simp
    then have "snd (journal xs (res(u \<mapsto> 0))) u = Some 0" by (rule journal_keeps)
    with j have a: "res' u = Some 0" by simp
    from True Cons.prems(2) j have e: "journal (x # xs) res = (u @ [newline] @ sb, res')" by simp
    have "u @ [newline] @ sb = [] @ u @ [newline] @ sb" by simp
    then have "\<exists>pre post. u @ [newline] @ sb = pre @ u @ [newline] @ post" by blast
    with a e show ?thesis by simp
  next
    case False
    with Cons.prems have in_xs: "u \<in> set xs" by simp
    show ?thesis
    proof (cases "res x")
      case None
      obtain sb res' where j: "journal xs (res(x \<mapsto> 0)) = (sb, res')"
        by (cases "journal xs (res(x \<mapsto> 0))")
      from False Cons.prems(2) have "(res(x \<mapsto> 0)) u = None" by simp
      with in_xs have "snd (journal xs (res(x \<mapsto> 0))) u = Some 0 \<and>
         (\<exists>pre post. fst (journal xs (res(x \<mapsto> 0))) = pre @ u @ [newline] @ post)"
        by (rule Cons.IH)
      with j obtain pre post where
        a: "res' u = Some 0" and b: "sb = pre @ u @ [newline] @ post" by auto
      from None j have e: "journal (x # xs) res = (x @ [newline] @ sb, res')" by simp
      have "x @ [newline] @ sb = (x @ [newline] @ pre) @ u @ [newline] @ post"
        using b by simp
      then have "\<exists>pre post. x @ [newline] @ sb = pre @ u @ [newline] @ post" by blast
      with a e show ?thesis by simp
    next
      case (Some sz)
      from in_xs Cons.prems(2) have "snd (journal xs res) u = Some 0 \<and>
         (\<exists>pre post. fst (journal xs res) = pre @ u @ [newline] @ post)"
        by (rule Cons.IH)
      with Some show ?thesis by simp
    qed
  qed
qed


lemma sanitize_attr_url:
  assumes "strings_ToLower L (Key a) \<in> set url_attrs"
  shows "sanitize_attr L css f a urls = Inr (a\<lparr>Val := f (Val a)\<rparr>, insert (f (Val a)) urls)"
proof -
  from assms style_not_url_attr have "strings_ToLower L (Key a) \<noteq> ''style''" by auto
  with assms show ?thesis by (simp add: sanitize_attr_def Let_def)
qed

lemma appendContents_calls:
  "\<exists>e calls. appendContents fails path text = (e, calls) \<and>
     hd calls = Root_OpenFile path Append \<and>
     (\<not> fails (Root_OpenFile path Append) \<longrightarrow> File_Write path text \<in> set calls)"
  by (simp add: appendContents_def Let_def)

lemma generateHTML_journals:
  assumes doc: "gemini_HTML env q = Inr doc"
    and san: "HTMLSanitizeAndExtractUrls (lib env) (css_loop env) doc {} (sanitizeURL (lib env)) =
                Inr (doc1, urls1)"
    and tr: "transformer env = None"
    and order: "set (range_keys env urls1) = urls1"
    and res: "resources s = Some res"
    and w: "w \<in> urls1" "res w = None"
  shows "\<exists>r s' calls res'. generateHTML env s q = (r, s', calls) \<and>
           resources s' = Some res' \<and> res' w = Some 0 \<and>
           hd calls = Root_OpenFile LinksTXT Append \<and>
           (\<not> site_fails env (Root_OpenFile LinksTXT Append) \<longrightarrow>
              (\<exists>pre post. File_Write LinksTXT (pre @ w @ [newline] @ post) \<in> set calls))"
proof -
  obtain sb res' where j: "journal (range_keys env urls1) res = (sb, res')"
    by (cases "journal (range_keys env urls1) res")
  from w order have "w \<in> set (range_keys env urls1)" by simp
  from journal_new [of w "range_keys env urls1" res, OF this w(2)] j obtain pre post where
    a: "res' w = Some 0" and b: "sb = pre @ w @ [newline] @ post" by auto
  from b have len: "length sb > 0" by simp
  from appendContents_calls [of "site_fails env" LinksTXT sb] obtain e calls where
    ap: "appendContents (site_fails env) LinksTXT sb = (e, calls)"
    and h: "hd calls = Root_OpenFile LinksTXT Append"
    and f: "\<not> site_fails env (Root_OpenFile LinksTXT Append) \<longrightarrow> File_Write LinksTXT sb \<in> set calls"
    by blast
  let ?s1 = "s\<lparr>resources := Some res'\<rparr>"
  have "\<exists>r. generateHTML env s q = (r, ?s1, calls)"
  proof (cases e)
    case (Some er)
    with doc san tr res j len ap show ?thesis by (simp add: generateHTML_def)
  next
    case None
    with doc san tr res j len ap show ?thesis
      by (cases "html_Render env doc1") (simp_all add: generateHTML_def)
  qed
  then obtain r where "generateHTML env s q = (r, ?s1, calls)" ..
  moreover have "resources ?s1 = Some res'" by simp
  moreover from f b have "\<not> site_fails env (Root_OpenFile LinksTXT Append) \<longrightarrow>
              (\<exists>pre post. File_Write LinksTXT (pre @ w @ [newline] @ post) \<in> set calls)"
    by blast
  ultimately show ?thesis using a h by blast
qed

text \<open>
  C7, as the specification states it, fails twice. The URL \<^verbatim>\<open>.pdf\<close> has an extension in
  neither set and an empty stem: \<^verbatim>\<open>sanitizeURL\<close> returns \<^verbatim>\<open>index.html\<close>, not the sentinel.
  The URL \<^verbatim>\<open>report.pdf\<close> is mapped to the sentinel \<^verbatim>\<open>data:\<close>, and the sentinel is not
  dropped: the sanitizer inserts it into the collected URL set, and generating
  \<^verbatim>\<open>index.html\<close> from a page that links to \<^verbatim>\<open>report.pdf\<close> inserts \<^verbatim>\<open>data:\<close> into
  \<^verbatim>\<open>resources\<close> and writes the line \<^verbatim>\<open>data:\<close> to \<^verbatim>\<open>links.txt\<close>.
\<close>

theorem sentinel_counterexample:
  "sanitizeURL path_only ''.pdf'' = ''index.html'' \<and>
   sanitizeURL path_only ''report.pdf'' = ''data:'' \<and>
   HTMLSanitizeAndExtractUrls path_only css_no_urls pdf_link_document {} (sanitizeURL path_only) =
     Inr (Node DocumentNode [] []
            [Node ElementNode ''a'' [\<lparr>Namespace = [], Key = ''href'', Val = ''data:''\<rparr>] []],
          {''data:''}) \<and>
   (case generateFunc (example_env (Inr (htmlPrompt ''index.html'' ''outline'' []))
                         pdf_link_document [''data:''])
           (NewSite ''content/cats'') ''index.html'' of
      (r, s, calls) \<Rightarrow>
        map_option (\<lambda>m. m ''data:'') (resources s) = Some (Some 0) \<and>
        File_Write ''links.txt'' (''data:'' @ [newline]) \<in> set calls)"
  by code_simp

text \<open>
  C7 (amended). For every URL that \<^verbatim>\<open>url.Parse\<close> accepts with a non-empty path, whose
  stem is non-empty after replacement and trimming and whose extension maps to neither
  the image set nor the HTML set, \<^verbatim>\<open>sanitizeURL\<close> returns the sentinel \<^verbatim>\<open>data:\<close> (with an
  empty stem it returns \<^verbatim>\<open>index.html\<close>, whatever the extension). The sanitizer stores the
  result of the URL sanitizer as the value of a URL attribute, so the URL itself is gone
  from the document, and inserts that result into the collected URL set, the sentinel
  like any other result.
\<close>

theorem sentinel_replaces_url:
  "(url_Parse L v = Some u \<and> Path u \<noteq> [] \<and> safe_stem_of L u \<noteq> [] \<and>
    extension_of L u \<notin> image_extensions \<and> extension_of L u \<notin> html_extensions \<longrightarrow>
      sanitizeURL L v = ''data:'') \<and>
   (url_Parse L v = Some u \<and> Path u \<noteq> [] \<and> safe_stem_of L u = [] \<longrightarrow>
      sanitizeURL L v = ''index.html'') \<and>
   (strings_ToLower L (Key a) \<in> set url_attrs \<longrightarrow>
      sanitize_attr L css f a urls = Inr (a\<lparr>Val := f (Val a)\<rparr>, insert (f (Val a)) urls))"
proof (intro conjI impI)
  assume "url_Parse L v = Some u \<and> Path u \<noteq> [] \<and> safe_stem_of L u \<noteq> [] \<and>
    extension_of L u \<notin> image_extensions \<and> extension_of L u \<notin> html_extensions"
  then show "sanitizeURL L v = ''data:''"
    by (simp add: sanitizeURL_pieces)
next
  assume "url_Parse L v = Some u \<and> Path u \<noteq> [] \<and> safe_stem_of L u = []"
  then show "sanitizeURL L v = ''index.html''"
    by (simp add: sanitizeURL_pieces)
next
  assume "strings_ToLower L (Key a) \<in> set url_attrs"
  then show "sanitize_attr L css f a urls = Inr (a\<lparr>Val := f (Val a)\<rparr>, insert (f (Val a)) urls)"
    by (rule sanitize_attr_url)
qed

theorem sentinel_replaces_url_witness:
  "sanitizeURL path_only ''report.pdf'' = ''data:'' \<and>
   sanitize_attr path_only css_no_urls (sanitizeURL path_only)
       \<lparr>Namespace = [], Key = ''href'', Val = ''report.pdf''\<rparr> {} =
     Inr (\<lparr>Namespace = [], Key = ''href'', Val = ''data:''\<rparr>, {''data:''})"
proof -
  let ?u = "\<lparr>Path = ''report.pdf'', RawQuery = []\<rparr>"
  let ?a = "\<lparr>Namespace = [], Key = ''href'', Val = ''report.pdf''\<rparr>"
  note T = sentinel_replaces_url [of path_only "''report.pdf''" ?u ?a css_no_urls
      "sanitizeURL path_only" "{}"]
  have p: "url_Parse path_only ''report.pdf'' = Some ?u" by (simp add: path_only_def)
  have st: "safe_stem_of path_only ?u \<noteq> []" by code_simp
  have e1: "extension_of path_only ?u \<notin> image_extensions" by code_simp
  have e2: "extension_of path_only ?u \<notin> html_extensions" by code_simp
  from T p st e1 e2 have 1: "sanitizeURL path_only ''report.pdf'' = ''data:''" by simp
  have k: "strings_ToLower path_only (Key ?a) \<in> set url_attrs" by code_simp
  from T k 1 have 2: "sanitize_attr path_only css_no_urls (sanitizeURL path_only) ?a {} =
     Inr (\<lparr>Namespace = [], Key = ''href'', Val = ''data:''\<rparr>, {''data:''})" by simp
  from 1 2 show ?thesis by blast
qed

end
